theory Spec2Isabelle
  imports Complex_Main "HOL-Library.Product_Lexorder" "HOL-Library.List_Lexorder"
    "HOL-Library.Char_ord"
begin

section \<open>The similarity engine (recommendation_engine.py)\<close>

text \<open>
  A numpy array of shape \<open>(r, c)\<close> is a list of \<open>r\<close> rows, each a list of \<open>c\<close> reals.
  float64 arithmetic is idealised to the reals. Indices are natural numbers, so numpy's
  negative indexing is out of the model. An index outside the array raises IndexError in
  numpy; the model returns \<open>Inl IndexError\<close> there.
\<close>

type_synonym matrix = "real list list"

datatype py_error = IndexError | KeyError | AttributeError | MultipleObjectsReturned

definition ncols :: "matrix \<Rightarrow> nat" where
  "ncols M = (case M of [] \<Rightarrow> 0 | r # _ \<Rightarrow> length r)"


text \<open>\<open>M[i, :]\<close>, \<open>M[:, j]\<close> and \<open>M[i, j]\<close>.\<close>

definition row_of :: "matrix \<Rightarrow> nat \<Rightarrow> py_error + real list" where
  "row_of M i = (if i < length M then Inr (M ! i) else Inl IndexError)"

definition col_of :: "matrix \<Rightarrow> nat \<Rightarrow> py_error + real list" where
  "col_of M j = (if j < ncols M then Inr (map (\<lambda>r. r ! j) M) else Inl IndexError)"

definition cell :: "matrix \<Rightarrow> nat \<Rightarrow> nat \<Rightarrow> py_error + real" where
  "cell M i j = (if i < length M \<and> j < length (M ! i) then Inr (M ! i ! j) else Inl IndexError)"

subsection \<open>fast_predict_rating\<close>

type_synonym rater = "real \<times> nat \<times> real"

text \<open>
  The loop \<open>for i in range(len(similarities))\<close> that appends
  \<open>(similarities[i], i, ratings[i])\<close> for every \<open>i != user_idx\<close> with \<open>ratings[i] > 0\<close>.
  \<open>ratings[i]\<close> is only read when \<open>i != user_idx\<close> (\<open>and\<close> short-circuits), and raises
  when \<open>i\<close> is past the end of \<open>ratings\<close>.
\<close>

fun rater_loop :: "real list \<Rightarrow> real list \<Rightarrow> nat \<Rightarrow> nat list \<Rightarrow> rater list \<Rightarrow> py_error + rater list" where
  "rater_loop similarities ratings user_idx [] similar_users = Inr similar_users"
| "rater_loop similarities ratings user_idx (i # rest) similar_users =
     (if i \<noteq> user_idx then
        (if i < length ratings then
           rater_loop similarities ratings user_idx rest
             (if ratings ! i > 0 then similar_users @ [(similarities ! i, i, ratings ! i)]
              else similar_users)
         else Inl IndexError)
      else rater_loop similarities ratings user_idx rest similar_users)"

text \<open>
  \<open>similar_users.sort(reverse=True)\<close>: the tuples are compared lexicographically
  (similarity, then row index, then rating) and put in descending order. The order on
  tuples is linear, so two tuples that compare equal are the same tuple and stability
  plays no role.
\<close>

definition sort_reverse :: "rater list \<Rightarrow> rater list" where
  "sort_reverse xs = rev (sort xs)"

text \<open>The candidate raters, collected and sorted: the list \<open>similar_users\<close> before the cut to \<open>k\<close>.\<close>

definition similar_users_sorted :: "matrix \<Rightarrow> matrix \<Rightarrow> nat \<Rightarrow> nat \<Rightarrow> py_error + rater list" where
  "similar_users_sorted user_item_matrix similarity_matrix user_idx item_idx =
     (case row_of similarity_matrix user_idx of
        Inl e \<Rightarrow> Inl e
      | Inr similarities \<Rightarrow>
          (case col_of user_item_matrix item_idx of
             Inl e \<Rightarrow> Inl e
           | Inr ratings \<Rightarrow>
               (case rater_loop similarities ratings user_idx [0..<length similarities] [] of
                  Inl e \<Rightarrow> Inl e
                | Inr similar_users \<Rightarrow> Inr (sort_reverse similar_users))))"

text \<open>The loop accumulating \<open>weighted_sum\<close> and \<open>similarity_sum\<close>.\<close>

fun weighted_loop :: "rater list \<Rightarrow> real \<times> real \<Rightarrow> real \<times> real" where
  "weighted_loop [] acc = acc"
| "weighted_loop ((sim, user_id, rating) # rest) (weighted_sum, similarity_sum) =
     (if sim > 0 then weighted_loop rest (weighted_sum + sim * rating, similarity_sum + \<bar>sim\<bar>)
      else weighted_loop rest (weighted_sum, similarity_sum))"

definition fast_predict_rating :: "matrix \<Rightarrow> matrix \<Rightarrow> nat \<Rightarrow> nat \<Rightarrow> nat \<Rightarrow> py_error + real" where
  "fast_predict_rating user_item_matrix similarity_matrix user_idx item_idx k =
     (case similar_users_sorted user_item_matrix similarity_matrix user_idx item_idx of
        Inl e \<Rightarrow> Inl e
      | Inr sorted_users \<Rightarrow>
          (let similar_users = take k sorted_users in
           if similar_users = [] then Inr 0
           else (case weighted_loop similar_users (0, 0) of
                   (weighted_sum, similarity_sum) \<Rightarrow>
                     if similarity_sum > 0 then Inr (weighted_sum / similarity_sum) else Inr 0)))"

subsection \<open>compute_user_recommendations\<close>

text \<open>
  The loop over the columns: a column the user has no entry in (\<open>== 0\<close>) gets a predicted
  rating, with the default \<open>k = 10\<close>, and is appended when the prediction is positive.
\<close>

fun recommendation_loop ::
  "matrix \<Rightarrow> matrix \<Rightarrow> nat \<Rightarrow> nat list \<Rightarrow> (nat \<times> real) list \<Rightarrow> py_error + (nat \<times> real) list" where
  "recommendation_loop user_item_matrix similarity_matrix user_idx [] recommendations =
     Inr recommendations"
| "recommendation_loop user_item_matrix similarity_matrix user_idx (i # rest) recommendations =
     (case cell user_item_matrix user_idx i of
        Inl e \<Rightarrow> Inl e
      | Inr v \<Rightarrow>
          if v = 0 then
            (case fast_predict_rating user_item_matrix similarity_matrix user_idx i 10 of
               Inl e \<Rightarrow> Inl e
             | Inr predicted_rating \<Rightarrow>
                 recommendation_loop user_item_matrix similarity_matrix user_idx rest
                   (if predicted_rating > 0 then recommendations @ [(i, predicted_rating)]
                    else recommendations))
          else recommendation_loop user_item_matrix similarity_matrix user_idx rest recommendations)"

text \<open>
  \<open>recommendations.sort(key=lambda x: x[1], reverse=True)\<close>. Python's sort is stable and
  stays so under \<open>reverse=True\<close>: the list is reversed, sorted in ascending order of the
  key, and reversed again, so pairs of equal score keep their original order.
\<close>

definition sort_by_score_reverse :: "(nat \<times> real) list \<Rightarrow> (nat \<times> real) list" where
  "sort_by_score_reverse xs = rev (sort_key snd (rev xs))"

definition compute_user_recommendations ::
  "matrix \<Rightarrow> matrix \<Rightarrow> nat \<Rightarrow> nat \<Rightarrow> py_error + (nat \<times> real) list" where
  "compute_user_recommendations user_item_matrix similarity_matrix user_idx n_recommendations =
     (case recommendation_loop user_item_matrix similarity_matrix user_idx
             [0..<ncols user_item_matrix] [] of
        Inl e \<Rightarrow> Inl e
      | Inr recommendations \<Rightarrow> Inr (take n_recommendations (sort_by_score_reverse recommendations)))"

subsection \<open>compute_cosine_similarity_matrix and compute_item_similarity_matrix\<close>

text \<open>
  \<open>np.zeros((r, c))\<close>, the assignment \<open>A[i, j] = v\<close>, \<open>np.dot\<close> and
  \<open>np.sqrt(np.sum(x ** 2))\<close>. Square root, product and quotient are those of the reals;
  the code rounds each to float64 and clips nothing, so the properties below are the ones
  that do not rest on the exact value of a rounded quotient.
\<close>

definition zeros :: "nat \<Rightarrow> nat \<Rightarrow> matrix" where
  "zeros r c = replicate r (replicate c 0)"

definition set_cell :: "matrix \<Rightarrow> nat \<Rightarrow> nat \<Rightarrow> real \<Rightarrow> matrix" where
  "set_cell A i j v = A[i := (A ! i)[j := v]]"

definition dot :: "real list \<Rightarrow> real list \<Rightarrow> real" where
  "dot xs ys = sum_list (map2 (*) xs ys)"

definition norm_of :: "real list \<Rightarrow> real" where
  "norm_of xs = sqrt (sum_list (map (\<lambda>x. x\<^sup>2) xs))"

text \<open>
  The body of the inner loop, for the pair \<open>(i, j)\<close> with \<open>i \<le> j\<close>: the diagonal is set to
  \<open>1.0\<close>; off the diagonal the similarity (or \<open>0.0\<close> when a norm is not positive) is
  written to \<open>[i, j]\<close> and mirrored to \<open>[j, i]\<close>. \<open>vec k\<close> is the \<open>k\<close>-th entity's vector.
\<close>

definition similarity_step :: "(nat \<Rightarrow> real list) \<Rightarrow> real list \<Rightarrow> nat \<Rightarrow> nat \<Rightarrow> matrix \<Rightarrow> matrix" where
  "similarity_step vec norms i j similarity_matrix =
     (if i = j then set_cell similarity_matrix i j 1
      else
        (let dot_product = dot (vec i) (vec j) in
         if norms ! i > 0 \<and> norms ! j > 0 then
           (let similarity = dot_product / (norms ! i * norms ! j) in
            set_cell (set_cell similarity_matrix i j similarity) j i similarity)
         else set_cell (set_cell similarity_matrix i j 0) j i 0))"

text \<open>The loop that precomputes the norms.\<close>

definition norms_of :: "(nat \<Rightarrow> real list) \<Rightarrow> nat \<Rightarrow> real list" where
  "norms_of vec n = map (\<lambda>i. norm_of (vec i)) [0..<n]"

text \<open>The two nested loops \<open>for i in range(n): for j in range(i, n)\<close> over the zero matrix.\<close>

definition similarity_loops :: "(nat \<Rightarrow> real list) \<Rightarrow> nat \<Rightarrow> matrix" where
  "similarity_loops vec n =
     (let norms = norms_of vec n in
      fold (\<lambda>i A. fold (similarity_step vec norms i) [i..<n] A) [0..<n] (zeros n n))"

definition compute_cosine_similarity_matrix :: "matrix \<Rightarrow> matrix" where
  "compute_cosine_similarity_matrix M = similarity_loops (\<lambda>i. M ! i) (length M)"

text \<open>The same algorithm on the columns \<open>matrix[:, i]\<close>; \<open>n_items\<close> is \<open>matrix.shape[1]\<close>.\<close>

definition compute_item_similarity_matrix :: "matrix \<Rightarrow> matrix" where
  "compute_item_similarity_matrix M = similarity_loops (\<lambda>i. map (\<lambda>r. r ! i) M) (ncols M)"

subsection \<open>Notions used to state the properties of fast_predict_rating\<close>

definition mk_rater :: "real list \<Rightarrow> real list \<Rightarrow> nat \<Rightarrow> rater" where
  "mk_rater similarities ratings i = (similarities ! i, i, ratings ! i)"

text \<open>The tuples the collecting loop appends, in the order it appends them.\<close>

definition candidates :: "matrix \<Rightarrow> matrix \<Rightarrow> nat \<Rightarrow> nat \<Rightarrow> rater list" where
  "candidates M S u i =
     map (mk_rater (S ! u) (map (\<lambda>r. r ! i) M))
       (filter (\<lambda>j. j \<noteq> u \<and> map (\<lambda>r. r ! i) M ! j > 0) [0..<length (S ! u)])"

text \<open>
  The specification of predictRating, following the words of the specification and not the
  code: the raters are the rows \<open>r \<noteq> u\<close> whose entry in column \<open>i\<close> counts as a rating
  (\<open>rated\<close>); \<open>sel\<close> is a choice of \<open>k\<close> raters (all of them when there are fewer) of
  highest similarity to \<open>u\<close>; the prediction is the similarity-weighted mean over the
  selected raters of positive similarity, and \<open>0\<close> when their absolute similarities sum
  to \<open>0\<close> (which includes the case of no rater at all).
\<close>

definition raters :: "(real \<Rightarrow> bool) \<Rightarrow> matrix \<Rightarrow> nat \<Rightarrow> nat \<Rightarrow> nat set" where
  "raters rated M u i = {r. r < length M \<and> r \<noteq> u \<and> rated (M ! r ! i)}"

definition predictRating_spec ::
  "(real \<Rightarrow> bool) \<Rightarrow> matrix \<Rightarrow> matrix \<Rightarrow> nat \<Rightarrow> nat \<Rightarrow> nat \<Rightarrow> real \<Rightarrow> bool" where
  "predictRating_spec rated M S u i k v \<longleftrightarrow>
     (\<exists>sel. sel \<subseteq> raters rated M u i \<and> card sel = min k (card (raters rated M u i)) \<and>
        (\<forall>r\<in>sel. \<forall>r'\<in>raters rated M u i - sel. S ! u ! r' \<le> S ! u ! r) \<and>
        v = (let pos = {r\<in>sel. S ! u ! r > 0}; den = (\<Sum>r\<in>pos. \<bar>S ! u ! r\<bar>)
             in if den = 0 then 0 else (\<Sum>r\<in>pos. S ! u ! r * (M ! r ! i)) / den))"


text \<open>The value the similarity loops leave in cell \<open>(i, j)\<close>, and the shape \<open>n \<times> n\<close>.\<close>

definition cosine :: "(nat \<Rightarrow> real list) \<Rightarrow> nat \<Rightarrow> nat \<Rightarrow> real" where
  "cosine vec i j =
     (if i = j then 1
      else if norm_of (vec i) > 0 \<and> norm_of (vec j) > 0
           then dot (vec i) (vec j) / (norm_of (vec i) * norm_of (vec j))
           else 0)"

definition square :: "nat \<Rightarrow> matrix \<Rightarrow> bool" where
  "square n A \<longleftrightarrow> length A = n \<and> (\<forall>i<n. length (A ! i) = n)"

text \<open>A list of \<open>r\<close> rows of \<open>c\<close> entries each.\<close>

definition has_shape :: "nat \<Rightarrow> nat \<Rightarrow> matrix \<Rightarrow> bool" where
  "has_shape r c A \<longleftrightarrow> length A = r \<and> (\<forall>i<r. length (A ! i) = c)"

section \<open>The recommendation service (recommendation_service.py)\<close>

subsection \<open>The database and the service object\<close>

text \<open>
  Modelled from the spec: \<open>models.py\<close>, which declares the Django models \<open>Product\<close> and
  \<open>UserInteraction\<close>, is not among the sources. Following the data model of the
  specification, a table is a list of rows with the fields the service reads. A product
  row carries its primary key, the key of its category and the \<open>is_active\<close> flag; its
  text and price only enter the content features, which come from scikit-learn and are a
  parameter below. An interaction row is (session key, product, interaction type,
  timestamp).
\<close>

record product =
  product_pk :: int
  category :: int
  is_active :: bool

record interaction =
  session_key :: string
  product_id :: int
  interaction_type :: string
  timestamp :: nat

datatype log_level = INFO | WARNING | ERROR

text \<open>
  The world outside the service object: the two tables and what the module's logger has
  written, oldest line first. A formatted message is logged without the values it
  interpolates.
\<close>

record world =
  products :: "product list"
  interactions :: "interaction list"
  logged :: "(log_level \<times> string) list"

definition log_line :: "log_level \<Rightarrow> string \<Rightarrow> world \<Rightarrow> world" where
  "log_line level msg w = w\<lparr>logged := logged w @ [(level, msg)]\<rparr>"

text \<open>The fields of \<open>RecommendationService\<close>; \<open>None\<close> is Python's \<open>None\<close>, a dict is a map.\<close>

record service =
  user_item_matrix :: "matrix option"
  user_similarity_matrix :: "matrix option"
  item_similarity_matrix :: "matrix option"
  user_mapping :: "string \<rightharpoonup> nat"
  item_mapping :: "int \<rightharpoonup> nat"
  reverse_user_mapping :: "nat \<rightharpoonup> string"
  reverse_item_mapping :: "nat \<rightharpoonup> int"
  content_features :: "matrix option"
  is_trained :: bool

text \<open>\<open>__init__\<close>.\<close>

definition init_service :: service where
  "init_service =
     \<lparr>user_item_matrix = None, user_similarity_matrix = None, item_similarity_matrix = None,
      user_mapping = Map.empty, item_mapping = Map.empty, reverse_user_mapping = Map.empty,
      reverse_item_mapping = Map.empty, content_features = None, is_trained = False\<rparr>"

text \<open>The entries the service returns: \<open>{'product': ..., 'score': ..., 'reason': ...}\<close>.\<close>

record recommendation =
  rec_product :: product
  score :: real
  reason :: string

subsection \<open>Queries on the tables\<close>

text \<open>
  \<open>Product.objects.get(id=...)\<close> and \<open>Product.objects.get(id=..., is_active=True)\<close>;
  \<open>None\<close> stands for \<open>Product.DoesNotExist\<close>. Primary keys are unique in the table.
\<close>

definition get_product :: "world \<Rightarrow> int \<Rightarrow> product option" where
  "get_product w pid = find (\<lambda>p. product_pk p = pid) (products w)"

definition get_active_product :: "world \<Rightarrow> int \<Rightarrow> product option" where
  "get_active_product w pid = find (\<lambda>p. product_pk p = pid \<and> is_active p) (products w)"

text \<open>\<open>models.Count('userinteraction')\<close>: the interaction rows that refer to the product.\<close>

definition interaction_count :: "world \<Rightarrow> product \<Rightarrow> nat" where
  "interaction_count w p = length (filter (\<lambda>e. product_id e = product_pk p) (interactions w))"

text \<open>
  \<open>order_by('-interaction_count')\<close>. SQL leaves the order of rows with equal counts open;
  the model keeps them in table order.
\<close>

definition order_by_desc :: "('a \<Rightarrow> nat) \<Rightarrow> 'a list \<Rightarrow> 'a list" where
  "order_by_desc f xs = rev (sort_key f (rev xs))"

subsection \<open>_get_interaction_weight\<close>

definition get_interaction_weight :: "string \<Rightarrow> real" where
  "get_interaction_weight kind =
     (case map_of [(''view'', 1), (''like'', 3), (''dislike'', - 2), (''purchase'', 5)] kind of
        Some weight \<Rightarrow> weight
      | None \<Rightarrow> 1)"

subsection \<open>prepare_interaction_data\<close>

text \<open>
  \<open>df.groupby(['session_key', 'product_id'])['weight'].sum().reset_index()\<close>: one row per
  distinct (session, product) pair, in ascending order of the pair, with the sum of the
  weights of the rows of that pair.
\<close>

definition groupby_sum :: "(string \<times> int \<times> real) list \<Rightarrow> ((string \<times> int) \<times> real) list" where
  "groupby_sum rows =
     map (\<lambda>k. (k, sum_list (map (\<lambda>(s, p, weight). weight)
                               (filter (\<lambda>(s, p, weight). (s, p) = k) rows))))
         (sort (remdups (map (\<lambda>(s, p, weight). (s, p)) rows)))"

text \<open>\<open>Series.unique()\<close>: the distinct values in order of first appearance.\<close>

definition pd_unique :: "'a list \<Rightarrow> 'a list" where
  "pd_unique xs = rev (remdups (rev xs))"

text \<open>A dict built from key-value pairs in order: a later pair overwrites an earlier one.\<close>

definition dict_of :: "('k \<times> 'v) list \<Rightarrow> ('k \<rightharpoonup> 'v)" where
  "dict_of kvs = map_of (rev kvs)"

text \<open>
  The loop \<open>for _, row in user_item_df.iterrows()\<close> that writes each aggregated weight
  into its cell. A missing key raises KeyError, an index outside the matrix IndexError.
\<close>

fun fill_loop ::
  "(string \<rightharpoonup> nat) \<Rightarrow> (int \<rightharpoonup> nat) \<Rightarrow> ((string \<times> int) \<times> real) list \<Rightarrow> matrix \<Rightarrow> py_error + matrix" where
  "fill_loop um im [] A = Inr A"
| "fill_loop um im (((s, p), weight) # rows) A =
     (case um s of
        None \<Rightarrow> Inl KeyError
      | Some user_idx \<Rightarrow>
          (case im p of
             None \<Rightarrow> Inl KeyError
           | Some item_idx \<Rightarrow>
               if user_idx < length A \<and> item_idx < length (A ! user_idx)
               then fill_loop um im rows (set_cell A user_idx item_idx weight)
               else Inl IndexError))"

definition prepare_interaction_data :: "world \<Rightarrow> service \<Rightarrow> matrix option \<times> world \<times> service" where
  "prepare_interaction_data w s =
     (if interactions w = [] then (None, log_line WARNING ''No user interactions found'' w, s)
      else
        (let interaction_data =
               map (\<lambda>e. (session_key e, product_id e, get_interaction_weight (interaction_type e)))
                   (interactions w)
         in if interaction_data = [] then (None, w, s)
            else
              (let user_item_df = groupby_sum interaction_data;
                   unique_users = pd_unique (map (\<lambda>((s, p), weight). s) user_item_df);
                   unique_items = pd_unique (map (\<lambda>((s, p), weight). p) user_item_df);
                   user_items = map (\<lambda>(idx, user). (user, idx)) (enumerate 0 unique_users);
                   item_items = map (\<lambda>(idx, item). (item, idx)) (enumerate 0 unique_items);
                   s' = s\<lparr>user_mapping := dict_of user_items,
                          item_mapping := dict_of item_items,
                          reverse_user_mapping := dict_of (map (\<lambda>(user, idx). (idx, user)) user_items),
                          reverse_item_mapping := dict_of (map (\<lambda>(item, idx). (idx, item)) item_items)\<rparr>;
                   n_users = length unique_users;
                   n_items = length unique_items
               in case fill_loop (user_mapping s') (item_mapping s') user_item_df
                         (zeros n_users n_items) of
                    Inl e \<Rightarrow> (None, log_line ERROR ''Error preparing interaction data'' w, s')
                  | Inr filled \<Rightarrow> (Some filled, w, s'))))"

subsection \<open>prepare_content_features and train_model\<close>

text \<open>
  The TF-IDF and scaling pipeline is scikit-learn's; it is the parameter \<open>featurize\<close>,
  which yields \<open>None\<close> when it raises (the exception is caught and logged).
\<close>

definition prepare_content_features ::
  "(product list \<Rightarrow> matrix option) \<Rightarrow> world \<Rightarrow> matrix option \<times> world" where
  "prepare_content_features featurize w =
     (let active = filter is_active (products w) in
      if active = [] then (None, w)
      else (case featurize active of
              None \<Rightarrow> (None, log_line ERROR ''Error preparing content features'' w)
            | Some features \<Rightarrow> (Some features, w)))"

definition train_model ::
  "(product list \<Rightarrow> matrix option) \<Rightarrow> world \<Rightarrow> service \<Rightarrow> bool \<times> world \<times> service" where
  "train_model featurize w s =
     (case prepare_interaction_data (log_line INFO ''Training recommendation model...'' w) s of
        (m, w1, s1) \<Rightarrow>
          (let s2 = s1\<lparr>user_item_matrix := m\<rparr> in
           case m of
             None \<Rightarrow>
               (False, log_line WARNING ''No interaction data available for training'' w1, s2)
           | Some M \<Rightarrow>
               (let w2 = log_line INFO ''Computing user similarity matrix...'' w1;
                    s3 = s2\<lparr>user_similarity_matrix := Some (compute_cosine_similarity_matrix M)\<rparr>;
                    w3 = log_line INFO ''Computing item similarity matrix...'' w2;
                    s4 = s3\<lparr>item_similarity_matrix := Some (compute_item_similarity_matrix M)\<rparr>
                in case prepare_content_features featurize w3 of
                     (features, w4) \<Rightarrow>
                       (True, log_line INFO ''Model training completed successfully'' w4,
                        s4\<lparr>content_features := features, is_trained := True\<rparr>))))"

subsection \<open>The fallbacks: _get_popular_recommendations and _get_category_recommendations\<close>

definition get_popular_recommendations :: "world \<Rightarrow> nat \<Rightarrow> recommendation list" where
  "get_popular_recommendations w n_recommendations =
     map (\<lambda>p. \<lparr>rec_product = p, score = 1, reason = ''popularity''\<rparr>)
         (take n_recommendations
            (order_by_desc (interaction_count w) (filter is_active (products w))))"

definition get_category_recommendations ::
  "world \<Rightarrow> int \<Rightarrow> nat \<Rightarrow> recommendation list \<times> world" where
  "get_category_recommendations w pid n_recommendations =
     (case get_product w pid of
        None \<Rightarrow> ([], log_line ERROR ''Error getting category recommendations'' w)
      | Some product \<Rightarrow>
          (map (\<lambda>p. \<lparr>rec_product = p, score = 1, reason = ''same_category''\<rparr>)
               (take n_recommendations
                  (filter (\<lambda>p. category p = category product \<and> is_active p \<and> product_pk p \<noteq> pid)
                          (products w))),
           w))"

subsection \<open>get_user_recommendations\<close>

text \<open>
  \<open>if not self.is_trained: self.train_model()\<close>, the first statement of both public
  queries; the result of the training attempt is not looked at.
\<close>

definition train_if_untrained ::
  "(product list \<Rightarrow> matrix option) \<Rightarrow> world \<Rightarrow> service \<Rightarrow> world \<times> service" where
  "train_if_untrained featurize w s =
     (if \<not> is_trained s then (case train_model featurize w s of (ok, w', s') \<Rightarrow> (w', s'))
      else (w, s))"

text \<open>
  A matrix field that is \<open>None\<close> is not subscriptable: the first read raises. The empty
  array raises on its first read as well, and every exception ends in the same handler,
  so \<open>None\<close> is read as the empty array where a field is only subscripted.
\<close>

definition subscriptable :: "matrix option \<Rightarrow> matrix" where
  "subscriptable m = (case m of None \<Rightarrow> [] | Some A \<Rightarrow> A)"

text \<open>
  The loop that maps item indices back to products: a missing index raises KeyError;
  a product that is missing or inactive (\<open>Product.DoesNotExist\<close>) is skipped.
\<close>

fun products_loop ::
  "world \<Rightarrow> (nat \<rightharpoonup> int) \<Rightarrow> (nat \<times> real) list \<Rightarrow> recommendation list \<Rightarrow>
   py_error + recommendation list" where
  "products_loop w rim [] product_recommendations = Inr product_recommendations"
| "products_loop w rim ((item_idx, sc) # rest) product_recommendations =
     (case rim item_idx of
        None \<Rightarrow> Inl KeyError
      | Some pid \<Rightarrow>
          (case get_active_product w pid of
             None \<Rightarrow> products_loop w rim rest product_recommendations
           | Some p \<Rightarrow>
               products_loop w rim rest
                 (product_recommendations @
                    [\<lparr>rec_product = p, score = sc, reason = ''collaborative_filtering''\<rparr>])))"

text \<open>The part of get_user_recommendations after the fallback test, inside the \<open>try\<close>.\<close>

definition collaborative_recommendations ::
  "world \<Rightarrow> service \<Rightarrow> string \<Rightarrow> nat \<Rightarrow> py_error + recommendation list" where
  "collaborative_recommendations w s session n_recommendations =
     (case user_mapping s session of
        None \<Rightarrow> Inl KeyError
      | Some user_idx \<Rightarrow>
          (case user_item_matrix s of
             None \<Rightarrow> Inl AttributeError
           | Some M \<Rightarrow>
               (case compute_user_recommendations M (subscriptable (user_similarity_matrix s))
                       user_idx n_recommendations of
                  Inl e \<Rightarrow> Inl e
                | Inr recommendations \<Rightarrow>
                    products_loop w (reverse_item_mapping s) recommendations [])))"

definition get_user_recommendations ::
  "(product list \<Rightarrow> matrix option) \<Rightarrow> world \<Rightarrow> service \<Rightarrow> string \<Rightarrow> nat \<Rightarrow>
   recommendation list \<times> world \<times> service" where
  "get_user_recommendations featurize w s session n_recommendations =
     (case train_if_untrained featurize w s of
        (w1, s1) \<Rightarrow>
          if \<not> is_trained s1 \<or> user_mapping s1 session = None
          then (get_popular_recommendations w1 n_recommendations, w1, s1)
          else (case collaborative_recommendations w1 s1 session n_recommendations of
                  Inr product_recommendations \<Rightarrow> (product_recommendations, w1, s1)
                | Inl e \<Rightarrow>
                    (let w2 = log_line ERROR ''Error getting user recommendations'' w1
                     in (get_popular_recommendations w2 n_recommendations, w2, s1))))"

subsection \<open>get_similar_products\<close>

text \<open>
  \<open>np.argsort\<close> is numpy's and its default sort is not stable: it returns the indices of
  the array in ascending order of their values, and the order of indices of equal values
  is not fixed. The service functions take it as the parameter \<open>argsort\<close>;
  \<open>is_argsort\<close> is its contract, and \<open>stable_argsort\<close> the instance that keeps
  indices of equal values in ascending order.
\<close>

definition is_argsort :: "(real list \<Rightarrow> nat list) \<Rightarrow> bool" where
  "is_argsort argsort \<longleftrightarrow>
     (\<forall>xs. length (argsort xs) = length xs \<and> set (argsort xs) = {0..<length xs} \<and>
           sorted (map (\<lambda>i. xs ! i) (argsort xs)))"

definition stable_argsort :: "real list \<Rightarrow> nat list" where
  "stable_argsort xs = sort_key (\<lambda>i. xs ! i) [0..<length xs]"

text \<open>
  The loop over \<open>similar_indices\<close>: an index of positive similarity is mapped back to its
  product, which is appended when it exists and is active.
\<close>

fun similar_loop ::
  "world \<Rightarrow> (nat \<rightharpoonup> int) \<Rightarrow> real list \<Rightarrow> nat list \<Rightarrow> recommendation list \<Rightarrow>
   py_error + recommendation list" where
  "similar_loop w rim similarities [] similar_products = Inr similar_products"
| "similar_loop w rim similarities (idx # rest) similar_products =
     (if similarities ! idx > 0 then
        (case rim idx of
           None \<Rightarrow> Inl KeyError
         | Some similar_product_id \<Rightarrow>
             (case get_active_product w similar_product_id of
                None \<Rightarrow> similar_loop w rim similarities rest similar_products
              | Some p \<Rightarrow>
                  similar_loop w rim similarities rest
                    (similar_products @
                       [\<lparr>rec_product = p, score = similarities ! idx, reason = ''item_similarity''\<rparr>])))
      else similar_loop w rim similarities rest similar_products)"

text \<open>
  The part of get_similar_products after the fallback test. \<open>[::-1][1:n+1]\<close> reverses the
  sorted indices, drops the first and keeps the next \<open>n\<close>.
\<close>

definition item_similarity_recommendations ::
  "(real list \<Rightarrow> nat list) \<Rightarrow> world \<Rightarrow> service \<Rightarrow> int \<Rightarrow> nat \<Rightarrow>
   py_error + recommendation list" where
  "item_similarity_recommendations argsort w s pid n_recommendations =
     (case item_mapping s pid of
        None \<Rightarrow> Inl KeyError
      | Some item_idx \<Rightarrow>
          (case row_of (subscriptable (item_similarity_matrix s)) item_idx of
             Inl e \<Rightarrow> Inl e
           | Inr similarities \<Rightarrow>
               (let similar_indices = take n_recommendations (drop 1 (rev (argsort similarities)))
                in similar_loop w (reverse_item_mapping s) similarities similar_indices [])))"

definition get_similar_products ::
  "(product list \<Rightarrow> matrix option) \<Rightarrow> (real list \<Rightarrow> nat list) \<Rightarrow> world \<Rightarrow> service \<Rightarrow>
   int \<Rightarrow> nat \<Rightarrow> recommendation list \<times> world \<times> service" where
  "get_similar_products featurize argsort w s pid n_recommendations =
     (case train_if_untrained featurize w s of
        (w1, s1) \<Rightarrow>
          if \<not> is_trained s1 \<or> item_mapping s1 pid = None
          then (case get_category_recommendations w1 pid n_recommendations of
                  (recs, w2) \<Rightarrow> (recs, w2, s1))
          else (case item_similarity_recommendations argsort w1 s1 pid n_recommendations of
                  Inr similar_products \<Rightarrow> (similar_products, w1, s1)
                | Inl e \<Rightarrow>
                    (case get_category_recommendations
                            (log_line ERROR ''Error getting similar products'' w1) pid
                            n_recommendations of
                       (recs, w2) \<Rightarrow> (recs, w2, s1))))"

subsection \<open>record_interaction\<close>

text \<open>
  \<open>UserInteraction.objects.get_or_create(session_key=..., product=..., interaction_type=...,
  defaults={'timestamp': ...})\<close>: no matching row, a row is created; one matching row, it
  is returned; more than one, \<open>MultipleObjectsReturned\<close> is raised. The flag is \<open>created\<close>.
\<close>

definition same_interaction :: "string \<Rightarrow> int \<Rightarrow> string \<Rightarrow> interaction \<Rightarrow> bool" where
  "same_interaction session pid kind e \<longleftrightarrow>
     session_key e = session \<and> product_id e = pid \<and> interaction_type e = kind"

definition get_or_create ::
  "world \<Rightarrow> string \<Rightarrow> int \<Rightarrow> string \<Rightarrow> nat \<Rightarrow> py_error + (world \<times> bool)" where
  "get_or_create w session pid kind t =
     (case filter (same_interaction session pid kind) (interactions w) of
        [] \<Rightarrow>
          Inr (w\<lparr>interactions := interactions w @
                    [\<lparr>session_key = session, product_id = pid, interaction_type = kind,
                      timestamp = t\<rparr>]\<rparr>, True)
      | [e] \<Rightarrow> Inr (w, False)
      | e # e' # es \<Rightarrow> Inl MultipleObjectsReturned)"

text \<open>\<open>interaction.timestamp = ...; interaction.save()\<close> on the row that was found.\<close>

definition refresh_timestamp :: "string \<Rightarrow> int \<Rightarrow> string \<Rightarrow> nat \<Rightarrow> world \<Rightarrow> world" where
  "refresh_timestamp session pid kind t w =
     w\<lparr>interactions :=
          map (\<lambda>e. if same_interaction session pid kind e then e\<lparr>timestamp := t\<rparr> else e)
              (interactions w)\<rparr>"

text \<open>
  The outcome of evaluating \<open>models.timezone.now()\<close> is the parameter \<open>now\<close> of the
  body of record_interaction: a timestamp, or the exception the expression raises. An
  exception other than \<open>Product.DoesNotExist\<close> is caught by the second handler.

  In the module, \<open>models\<close> is \<open>django.db.models\<close> (\<open>from django.db import models\<close>),
  and that module has no attribute \<open>timezone\<close>: the expression raises AttributeError
  every time it is evaluated. \<open>models_timezone_now\<close> is that outcome, the value of \<open>now\<close>
  in every run of the code.
\<close>

definition models_timezone_now :: "py_error + nat" where
  "models_timezone_now = Inl AttributeError"

definition record_interaction ::
  "(product list \<Rightarrow> matrix option) \<Rightarrow> py_error + nat \<Rightarrow> world \<Rightarrow> service \<Rightarrow>
   string \<Rightarrow> int \<Rightarrow> string \<Rightarrow> bool \<times> world \<times> service" where
  "record_interaction featurize now w s session pid kind =
     (case get_product w pid of
        None \<Rightarrow> (False, log_line ERROR ''Product with id does not exist'' w, s)
      | Some product \<Rightarrow>
          (case now of
             Inl e \<Rightarrow> (False, log_line ERROR ''Error recording interaction'' w, s)
           | Inr t \<Rightarrow>
               (case get_or_create w session pid kind t of
                  Inl e \<Rightarrow> (False, log_line ERROR ''Error recording interaction'' w, s)
                | Inr (w1, created) \<Rightarrow>
                    (let w2 = (if \<not> created then refresh_timestamp session pid kind t w1 else w1);
                         total = length (interactions w2)
                     in if total mod 50 = 0
                        then (case train_model featurize w2 s of (ok, w3, s3) \<Rightarrow> (True, w3, s3))
                        else (True, w2, s)))))"

subsection \<open>Notions used to state the properties of the service\<close>

text \<open>The sum of the weights of all interaction rows of a (session, product) pair.\<close>

definition pair_weight :: "interaction list \<Rightarrow> string \<Rightarrow> int \<Rightarrow> real" where
  "pair_weight events k p =
     sum_list (map (\<lambda>e. get_interaction_weight (interaction_type e))
                   (filter (\<lambda>e. session_key e = k \<and> product_id e = p) events))"

text \<open>Rows of the two tables, for the examples.\<close>

definition interaction_row :: "string \<Rightarrow> int \<Rightarrow> string \<Rightarrow> nat \<Rightarrow> interaction" where
  "interaction_row s p k t = \<lparr>session_key = s, product_id = p, interaction_type = k, timestamp = t\<rparr>"

definition product_row :: "int \<Rightarrow> int \<Rightarrow> bool \<Rightarrow> product" where
  "product_row pk c a = \<lparr>product_pk = pk, category = c, is_active = a\<rparr>"

text \<open>The number of training runs the log shows: train_model logs this line first.\<close>

definition train_runs :: "world \<Rightarrow> nat" where
  "train_runs w =
     length (filter (\<lambda>l. l = (INFO, ''Training recommendation model...'')) (logged w))"

text \<open>The state after a first training run on one view of product 1 by session s1.\<close>

definition trained_once :: service where
  "trained_once =
     \<lparr>user_item_matrix = Some [[1]], user_similarity_matrix = Some [[1]],
      item_similarity_matrix = Some [[1]],
      user_mapping = [''s1'' \<mapsto> 0], item_mapping = [1 \<mapsto> 0],
      reverse_user_mapping = [0 \<mapsto> ''s1''], reverse_item_mapping = [0 \<mapsto> 1],
      content_features = None, is_trained = True\<rparr>"

text \<open>
  The interaction table after the upsert of record_interaction: a new row when no row of
  the same (session, product, type) exists, otherwise the same rows with the timestamp of
  the matching row refreshed.
\<close>

definition upserted :: "string \<Rightarrow> int \<Rightarrow> string \<Rightarrow> nat \<Rightarrow> interaction list \<Rightarrow> interaction list" where
  "upserted session pid kind t events =
     (if \<exists>e\<in>set events. same_interaction session pid kind e
      then map (\<lambda>e. if same_interaction session pid kind e then e\<lparr>timestamp := t\<rparr> else e) events
      else events @ [\<lparr>session_key = session, product_id = pid, interaction_type = kind,
                       timestamp = t\<rparr>])"


text \<open>Three products of one category, the third inactive; product 2 has the most interactions.\<close>

definition small_shop :: world where
  "small_shop =
     \<lparr>products = [product_row 1 7 True, product_row 2 7 True, product_row 3 7 False],
      interactions = [interaction_row ''s1'' 1 ''view'' 0, interaction_row ''s1'' 2 ''view'' 0,
                      interaction_row ''s2'' 2 ''like'' 0, interaction_row ''s2'' 3 ''view'' 0],
      logged = []\<rparr>"

text \<open>Two active products, both viewed once by the same session: identical columns.\<close>

definition twin_views :: world where
  "twin_views =
     \<lparr>products = [product_row 1 7 True, product_row 2 7 True],
      interactions = [interaction_row ''s1'' 1 ''view'' 0, interaction_row ''s1'' 2 ''view'' 0],
      logged = []\<rparr>"

section \<open>Properties of fast_predict_rating\<close>

lemma rater_loop_Inr:
  "rater_loop sims ratings u js acc = Inr res \<Longrightarrow>
   res = acc @ map (mk_rater sims ratings) (filter (\<lambda>i. i \<noteq> u \<and> ratings ! i > 0) js)"
proof (induction js arbitrary: acc)
  case Nil
  then show ?case by simp
next
  case (Cons j js)
  show ?case
  proof (cases "j \<noteq> u \<and> ratings ! j > 0")
    case True
    then have "rater_loop sims ratings u js (acc @ [mk_rater sims ratings j]) = Inr res"
      using Cons.prems by (simp add: mk_rater_def split: if_splits)
    from Cons.IH[OF this] True show ?thesis by simp
  next
    case False
    then have "rater_loop sims ratings u js acc = Inr res"
      using Cons.prems by (auto split: if_splits)
    from Cons.IH[OF this] False show ?thesis by auto
  qed
qed

lemma rater_loop_total:
  "\<forall>i\<in>set js. i \<noteq> u \<longrightarrow> i < length ratings \<Longrightarrow> \<exists>res. rater_loop sims ratings u js acc = Inr res"
  by (induction js arbitrary: acc) auto

lemma similar_users_sorted_Inr:
  assumes "similar_users_sorted M S u i = Inr cs"
  shows "cs = sort_reverse (candidates M S u i)"
  using assms
  by (auto simp: similar_users_sorted_def row_of_def col_of_def candidates_def
           split: sum.splits if_splits dest!: rater_loop_Inr)

lemma distinct_idx_candidates: "distinct (map (fst \<circ> snd) (candidates M S u i))"
proof -
  have "map (fst \<circ> snd) (candidates M S u i) =
        filter (\<lambda>j. j \<noteq> u \<and> map (\<lambda>r. r ! i) M ! j > 0) [0..<length (S ! u)]"
    by (simp add: candidates_def mk_rater_def comp_def)
  then show ?thesis by simp
qed

lemma set_sort_reverse: "set (sort_reverse xs) = set xs"
  by (simp add: sort_reverse_def)

lemma length_sort_reverse: "length (sort_reverse xs) = length xs"
  by (simp add: sort_reverse_def)

lemma distinct_idx_sort_reverse:
  "distinct (map f xs) \<Longrightarrow> distinct (map f (sort_reverse xs))"
  by (simp add: distinct_map sort_reverse_def)

lemma sort_reverse_desc: "distinct xs \<Longrightarrow> sorted_wrt (\<lambda>a b. b < a) (sort_reverse xs)"
  by (simp add: sort_reverse_def sorted_wrt_rev strict_sorted_iff)

lemma rater_less:
  "(b::rater) < a \<Longrightarrow> fst (snd a) \<noteq> fst (snd b) \<Longrightarrow>
   fst a > fst b \<or> (fst a = fst b \<and> fst (snd a) > fst (snd b))"
  by (cases a; cases b) (auto simp: less_le)

lemma sorted_users_order:
  assumes "similar_users_sorted M S u i = Inr cs"
  shows "sorted_wrt (\<lambda>a b. fst a > fst b \<or> (fst a = fst b \<and> fst (snd a) > fst (snd b))) cs"
proof -
  let ?c = "candidates M S u i"
  have cs: "cs = sort_reverse ?c" using assms by (rule similar_users_sorted_Inr)
  have d: "distinct (map (fst \<circ> snd) cs)"
    unfolding cs by (rule distinct_idx_sort_reverse) (rule distinct_idx_candidates)
  have "distinct ?c" using distinct_idx_candidates[of M S u i] by (simp add: distinct_map)
  then have s: "sorted_wrt (\<lambda>a b. b < a) cs" unfolding cs by (rule sort_reverse_desc)
  show ?thesis
    unfolding sorted_wrt_iff_nth_less
  proof (intro allI impI)
    fix p q assume pq: "p < q" "q < length cs"
    have lt: "cs ! q < cs ! p" using s pq by (auto simp: sorted_wrt_iff_nth_less)
    have "map (fst \<circ> snd) cs ! p \<noteq> map (fst \<circ> snd) cs ! q"
      using nth_eq_iff_index_eq[OF d, of p q] pq by simp
    then have ne: "fst (snd (cs ! p)) \<noteq> fst (snd (cs ! q))" using pq by simp
    show "fst (cs ! p) > fst (cs ! q) \<or>
          (fst (cs ! p) = fst (cs ! q) \<and> fst (snd (cs ! p)) > fst (snd (cs ! q)))"
      using rater_less[OF lt ne] .
  qed
qed

lemma weighted_loop_sums:
  "weighted_loop xs (a, b) =
     (a + sum_list (map (\<lambda>t. fst t * snd (snd t)) (filter (\<lambda>t. fst t > 0) xs)),
      b + sum_list (map (\<lambda>t. \<bar>fst t\<bar>) (filter (\<lambda>t. fst t > 0) xs)))"
  by (induction xs "(a, b)" arbitrary: a b rule: weighted_loop.induct) auto

lemma similar_users_sorted_total:
  assumes "u < length S" "i < ncols M" "length (S ! u) = length M"
  shows "similar_users_sorted M S u i = Inr (sort_reverse (candidates M S u i))"
proof -
  have "\<exists>res. rater_loop (S ! u) (map (\<lambda>r. r ! i) M) u [0..<length (S ! u)] [] = Inr res"
    by (rule rater_loop_total) (simp add: assms)
  then obtain res where
    r: "rater_loop (S ! u) (map (\<lambda>r. r ! i) M) u [0..<length (S ! u)] [] = Inr res" ..
  then have "similar_users_sorted M S u i = Inr (sort_reverse res)"
    using assms by (simp add: similar_users_sorted_def row_of_def col_of_def)
  then show ?thesis using similar_users_sorted_Inr by metis
qed

lemma idx_candidates:
  assumes "length (S ! u) = length M"
  shows "(fst \<circ> snd) ` set (candidates M S u i) = raters (\<lambda>x. 0 < x) M u i"
    and "t \<in> set (candidates M S u i) \<Longrightarrow> t = (S ! u ! fst (snd t), fst (snd t), M ! fst (snd t) ! i)"
  using assms by (auto simp: candidates_def raters_def mk_rater_def image_iff)

lemma fst_mono_rater: "(a::rater) \<le> b \<Longrightarrow> fst a \<le> fst b"
  by (cases a; cases b) auto

lemma sum_list_idx:
  assumes "distinct (map f xs)" "\<And>t. t \<in> set xs \<Longrightarrow> g t = h (f t)"
  shows "sum_list (map g xs) = sum h (f ` set xs)"
proof -
  have "sum_list (map g xs) = sum_list (map h (map f xs))"
    using assms(2) by (simp add: comp_def cong: map_cong)
  also have "\<dots> = sum h (set (map f xs))"
    using assms(1) by (rule sum_list_distinct_conv_sum_set)
  finally show ?thesis by simp
qed

lemma predict_spec_pos:
  assumes "u < length S" "i < ncols M" "length (S ! u) = length M"
  shows "\<exists>v. fast_predict_rating M S u i k = Inr v \<and> predictRating_spec (\<lambda>x. 0 < x) M S u i k v"
proof -
  let ?idx = "fst \<circ> snd :: rater \<Rightarrow> nat"
  let ?R = "raters (\<lambda>x. 0 < x) M u i"
  define cs where "cs = sort_reverse (candidates M S u i)"
  define top where "top = take k cs"
  define sel where "sel = ?idx ` set top"
  define pos where "pos = {r\<in>sel. S ! u ! r > 0}"
  define den where "den = (\<Sum>r\<in>pos. \<bar>S ! u ! r\<bar>)"
  define num where "num = (\<Sum>r\<in>pos. S ! u ! r * (M ! r ! i))"
  have sus: "similar_users_sorted M S u i = Inr cs"
    unfolding cs_def using assms by (rule similar_users_sorted_total)
  have set_cs: "set cs = set (candidates M S u i)" by (simp add: cs_def set_sort_reverse)
  have shape: "t = (S ! u ! ?idx t, ?idx t, M ! ?idx t ! i)" if "t \<in> set cs" for t
    using idx_candidates(2)[OF assms(3), of t i] that set_cs by simp
  have d_cs: "distinct (map ?idx cs)"
    unfolding cs_def by (rule distinct_idx_sort_reverse) (rule distinct_idx_candidates)
  have idx_cs: "?idx ` set cs = ?R" using idx_candidates(1)[OF assms(3)] set_cs by simp
  have len_cs: "length cs = card ?R"
  proof -
    have "card (?idx ` set cs) = length (map ?idx cs)"
      using distinct_card[OF d_cs] by simp
    then show ?thesis using idx_cs by simp
  qed
  have d_top: "distinct (map ?idx top)"
    using d_cs distinct_take[of "map ?idx cs" k] by (simp add: top_def take_map)
  have top_sub: "set top \<subseteq> set cs" unfolding top_def by (rule set_take_subset)
  have sel_sub: "sel \<subseteq> ?R" using top_sub idx_cs by (auto simp: sel_def)
  have card_sel: "card sel = min k (card ?R)"
  proof -
    have "card sel = length (map ?idx top)" using distinct_card[OF d_top] by (simp add: sel_def)
    then show ?thesis by (simp add: top_def len_cs min.commute)
  qed
  have desc: "sorted_wrt (\<lambda>a b. b < a) cs"
    unfolding cs_def
    by (rule sort_reverse_desc) (use distinct_idx_candidates[of M S u i] in \<open>simp add: distinct_map\<close>)
  have best: "S ! u ! r' \<le> S ! u ! r" if "r \<in> sel" "r' \<in> ?R - sel" for r r'
  proof -
    from that(1) have "\<exists>t\<in>set top. ?idx t = r" unfolding sel_def by blast
    then obtain t where t: "t \<in> set top" "?idx t = r" by blast
    from that(2) have "r' \<in> ?idx ` set cs" unfolding idx_cs by simp
    then have "\<exists>t\<in>set cs. ?idx t = r'" by (auto simp: image_iff)
    then obtain t' where t': "t' \<in> set cs" "?idx t' = r'" by blast
    have "t' \<notin> set top" using t' that(2) by (auto simp: sel_def)
    then have "t' \<in> set (drop k cs)"
      using t'(1) by (metis Un_iff append_take_drop_id set_append top_def)
    moreover have "sorted_wrt (\<lambda>a b. b < a) (take k cs @ drop k cs)" using desc by simp
    ultimately have "t' < t" using t(1) unfolding sorted_wrt_append top_def by blast
    then have "fst t' \<le> fst t" by (intro fst_mono_rater) simp
    moreover have "fst t = S ! u ! r" using shape[of t] t top_sub by (metis fst_conv subsetD)
    moreover have "fst t' = S ! u ! r'" using shape[of t'] t' by (metis fst_conv)
    ultimately show ?thesis by simp
  qed
  let ?ptop = "filter (\<lambda>t. fst t > 0) top"
  have d_ptop: "distinct (map ?idx ?ptop)" using d_top by (simp add: distinct_map_filter)
  have ptop_shape: "t = (S ! u ! ?idx t, ?idx t, M ! ?idx t ! i)" if "t \<in> set ?ptop" for t
    using shape[of t] that top_sub by auto
  have idx_ptop: "?idx ` set ?ptop = pos"
  proof -
    have "fst t = S ! u ! ?idx t" if "t \<in> set top" for t
      using shape[of t] that top_sub by (metis fst_conv subsetD)
    then show ?thesis by (auto simp: pos_def sel_def image_iff) 
  qed
  have num_eq: "sum_list (map (\<lambda>t. fst t * snd (snd t)) ?ptop) = num"
  proof -
    have "sum_list (map (\<lambda>t. fst t * snd (snd t)) ?ptop)
          = sum (\<lambda>r. S ! u ! r * (M ! r ! i)) (?idx ` set ?ptop)"
    proof (rule sum_list_idx[OF d_ptop])
      fix t assume "t \<in> set ?ptop"
      from ptop_shape[OF this] show "fst t * snd (snd t) = S ! u ! ?idx t * (M ! ?idx t ! i)"
        by (metis fst_conv snd_conv)
    qed
    then show ?thesis by (simp only: idx_ptop num_def)
  qed
  have den_eq: "sum_list (map (\<lambda>t. \<bar>fst t\<bar>) ?ptop) = den"
  proof -
    have "sum_list (map (\<lambda>t. \<bar>fst t\<bar>) ?ptop) = sum (\<lambda>r. \<bar>S ! u ! r\<bar>) (?idx ` set ?ptop)"
    proof (rule sum_list_idx[OF d_ptop])
      fix t assume "t \<in> set ?ptop"
      from ptop_shape[OF this] show "\<bar>fst t\<bar> = \<bar>S ! u ! ?idx t\<bar>"
        by (metis fst_conv)
    qed
    then show ?thesis by (simp only: idx_ptop den_def)
  qed
  have den_nonneg: "0 \<le> den" unfolding den_def by (rule sum_nonneg) simp
  have wl: "weighted_loop top (0, 0) = (num, den)"
    by (simp add: weighted_loop_sums num_eq den_eq)
  have empty: "den = 0" if "top = []"
    using that by (simp add: den_def pos_def sel_def)
  have res: "fast_predict_rating M S u i k = Inr (if den = 0 then 0 else num / den)"
    using den_nonneg empty by (auto simp: fast_predict_rating_def sus top_def[symmetric] wl Let_def)
  have "predictRating_spec (\<lambda>x. 0 < x) M S u i k (if den = 0 then 0 else num / den)"
    unfolding predictRating_spec_def
    by (rule exI[of _ sel]) (use sel_sub card_sel best in \<open>simp add: Let_def pos_def den_def num_def\<close>)
  with res show ?thesis by blast
qed


lemma spec_no_raters:
  assumes "predictRating_spec rated M S u i k v" "raters rated M u i = {}"
  shows "v = 0"
  using assms by (auto simp: predictRating_spec_def)

text \<open>
  Claim C1, as amended. For a similarity matrix with a row \<open>u\<close> as long as the
  user-item matrix has rows, and a column \<open>i\<close> of the user-item matrix,
  fast_predict_rating returns a value (it does not raise), and that value is the
  prediction of the specification when the raters are the rows \<open>r \<noteq> u\<close> with
  \<open>M[r][i] > 0\<close>: the \<open>k\<close> raters of highest similarity are selected and the result is
  \<open>\<Sum> S[u][r] * M[r][i] / \<Sum> |S[u][r]|\<close> over the selected raters with \<open>S[u][r] > 0\<close>,
  or \<open>0\<close> when that denominator is \<open>0\<close> or there is no rater. In particular the result
  is \<open>0\<close> when no row other than \<open>u\<close> has a nonzero entry in column \<open>i\<close>.
\<close>

theorem fast_predict_rating_positive_raters:
  assumes "u < length S" "i < ncols M" "length (S ! u) = length M"
  shows "\<exists>v. fast_predict_rating M S u i k = Inr v \<and>
             predictRating_spec (\<lambda>x. 0 < x) M S u i k v \<and>
             ((\<forall>r<length M. r \<noteq> u \<longrightarrow> M ! r ! i = 0) \<longrightarrow> v = 0)"
proof -
  obtain v where v: "fast_predict_rating M S u i k = Inr v"
      "predictRating_spec (\<lambda>x. 0 < x) M S u i k v"
    using predict_spec_pos[OF assms] by blast
  have "v = 0" if "\<forall>r<length M. r \<noteq> u \<longrightarrow> M ! r ! i = 0"
  proof (rule spec_no_raters[OF v(2)])
    show "raters (\<lambda>x. 0 < x) M u i = {}" using that by (auto simp: raters_def)
  qed
  with v show ?thesis by blast
qed

text \<open>
  Claim C1 as stated takes every row with a nonzero entry as a rater. With one other row
  whose entry is \<open>-2\<close> and whose similarity is \<open>1/2\<close>, the stated prediction is
  \<open>(1/2 * -2) / (1/2) = -2\<close>; the code skips the row (\<open>ratings[i] > 0\<close> fails) and
  returns \<open>0\<close>.
\<close>

theorem fast_predict_rating_nonzero_raters_counterexample:
  "fast_predict_rating [[0], [-2]] [[1, 1/2], [1/2, 1]] 0 0 10 = Inr 0 \<and>
   \<not> predictRating_spec (\<lambda>x. x \<noteq> 0) [[0], [-2]] [[1, 1/2], [1/2, 1]] 0 0 10 0"
proof
  show "fast_predict_rating [[0], [-2]] [[1, 1/2], [1/2, 1]] 0 0 10 = Inr 0"
    by (simp add: fast_predict_rating_def similar_users_sorted_def row_of_def col_of_def
          ncols_def sort_reverse_def)
next
  let ?M = "[[0], [-2]] :: matrix"
  have R: "raters (\<lambda>x. x \<noteq> 0) ?M 0 0 = {1}"
    by (auto simp: raters_def less_Suc_eq)
  show "\<not> predictRating_spec (\<lambda>x. x \<noteq> 0) ?M [[1, 1/2], [1/2, 1]] 0 0 10 0"
  proof
    assume "predictRating_spec (\<lambda>x. x \<noteq> 0) ?M [[1, 1/2], [1/2, 1]] 0 0 10 0"
    then obtain sel where sel: "sel \<subseteq> {1::nat}" "card sel = min 10 (card {1::nat})"
      and v: "(0::real) = (let pos = {r\<in>sel. [[1, 1/2], [1/2, 1::real]] ! 0 ! r > 0};
                       den = (\<Sum>r\<in>pos. \<bar>[[1, 1/2], [1/2, 1::real]] ! 0 ! r\<bar>)
                   in if den = 0 then 0
                      else (\<Sum>r\<in>pos. [[1, 1/2], [1/2, 1::real]] ! 0 ! r * (?M ! r ! 0)) / den)"
      unfolding predictRating_spec_def R by blast
    from sel have "sel = {1}" by (auto simp: subset_singleton_iff)
    with v show False by (simp add: Let_def)
  qed
qed

theorem fast_predict_rating_positive_raters_witness:
  "fast_predict_rating [[0], [2]] [[1, 1/2], [1/2, 1]] 0 0 10 = Inr 2 \<and>
   predictRating_spec (\<lambda>x. 0 < x) [[0], [2]] [[1, 1/2], [1/2, 1]] 0 0 10 2"
proof -
  have e: "fast_predict_rating [[0], [2]] [[1, 1/2], [1/2, 1]] 0 0 10 = Inr 2"
    by (simp add: fast_predict_rating_def similar_users_sorted_def row_of_def col_of_def
          ncols_def sort_reverse_def)
  have "\<exists>v. fast_predict_rating [[0], [2]] [[1, 1/2], [1/2, 1]] 0 0 10 = Inr v \<and>
        predictRating_spec (\<lambda>x. 0 < x) [[0], [2]] [[1, 1/2], [1/2, 1]] 0 0 10 v \<and>
        ((\<forall>r<length [[0], [2::real]]. r \<noteq> 0 \<longrightarrow> [[0], [2::real]] ! r ! 0 = 0) \<longrightarrow> v = 0)"
    by (rule fast_predict_rating_positive_raters) (simp_all add: ncols_def)
  with e show ?thesis by auto
qed

lemma larger_index_selected:
  assumes s: "sorted_wrt (\<lambda>a b. fst a > fst b \<or> (fst a = fst b \<and> fst (snd a) > fst (snd b))) (cs::rater list)"
    and t: "t \<in> set (take k cs)" and t': "t' \<in> set cs"
    and eq: "fst t' = fst t" and gt: "fst (snd t') > fst (snd t)"
  shows "t' \<in> set (take k cs)"
proof (rule ccontr)
  assume "t' \<notin> set (take k cs)"
  then have "t' \<in> set (drop k cs)"
    using t' by (metis Un_iff append_take_drop_id set_append)
  moreover have "sorted_wrt (\<lambda>a b. fst a > fst b \<or> (fst a = fst b \<and> fst (snd a) > fst (snd b)))
                   (take k cs @ drop k cs)"
    using s by simp
  ultimately have "fst t > fst t' \<or> (fst t = fst t' \<and> fst (snd t) > fst (snd t'))"
    using t unfolding sorted_wrt_append by blast
  with eq gt show False by auto
qed

text \<open>
  Claim C10. The candidate raters of fast_predict_rating are the tuples
  (similarity, row index, rating) sorted in descending order: an earlier tuple has a
  strictly higher similarity, or the same similarity and a strictly larger row index. So
  when a rater is among the first \<open>k\<close>, every candidate of the same similarity and larger
  row index is among the first \<open>k\<close> too, and the prediction is computed from that list.
\<close>

theorem fast_predict_rating_tie_break:
  assumes "similar_users_sorted M S u i = Inr cs"
  shows "set cs = set (candidates M S u i) \<and>
         sorted_wrt (\<lambda>a b. fst a > fst b \<or> (fst a = fst b \<and> fst (snd a) > fst (snd b))) cs \<and>
         (\<forall>t\<in>set (take k cs). \<forall>t'\<in>set cs.
            fst t' = fst t \<and> fst (snd t') > fst (snd t) \<longrightarrow> t' \<in> set (take k cs)) \<and>
         fast_predict_rating M S u i k =
           Inr (if take k cs = [] then 0
                else case weighted_loop (take k cs) (0, 0) of
                       (weighted_sum, similarity_sum) \<Rightarrow>
                         if similarity_sum > 0 then weighted_sum / similarity_sum else 0)"
proof -
  have a: "set cs = set (candidates M S u i)"
    using similar_users_sorted_Inr[OF assms] by (simp add: set_sort_reverse)
  have b: "sorted_wrt (\<lambda>a b. fst a > fst b \<or> (fst a = fst b \<and> fst (snd a) > fst (snd b))) cs"
    using assms by (rule sorted_users_order)
  have c: "\<forall>t\<in>set (take k cs). \<forall>t'\<in>set cs.
            fst t' = fst t \<and> fst (snd t') > fst (snd t) \<longrightarrow> t' \<in> set (take k cs)"
    using larger_index_selected[OF b] by blast
  have d: "fast_predict_rating M S u i k =
           Inr (if take k cs = [] then 0
                else case weighted_loop (take k cs) (0, 0) of
                       (weighted_sum, similarity_sum) \<Rightarrow>
                         if similarity_sum > 0 then weighted_sum / similarity_sum else 0)"
    by (simp add: fast_predict_rating_def assms Let_def split: prod.splits)
  from a b c d show ?thesis by blast
qed

theorem fast_predict_rating_tie_break_witness:
  "similar_users_sorted [[0], [2], [3], [0], [1]] [[1, 1/2, 1/2, 1, 1/3]] 0 0
     = Inr [(1/2, 2, 3), (1/2, 1, 2), (1/3, 4, 1)] \<and>
   fast_predict_rating [[0], [2], [3], [0], [1]] [[1, 1/2, 1/2, 1, 1/3]] 0 0 1 = Inr 3"
proof -
  have h: "similar_users_sorted [[0], [2], [3], [0], [1]] [[1, 1/2, 1/2, 1, 1/3]] 0 0
     = Inr [(1/2, 2, 3), (1/2, 1, 2), (1/3, 4, 1)]"
    by (simp add: similar_users_sorted_def row_of_def col_of_def ncols_def sort_reverse_def)
  from fast_predict_rating_tie_break[OF h, of 1] h show ?thesis by simp
qed

section \<open>Properties of compute_user_recommendations\<close>


lemma length_sort_by_score_reverse: "length (sort_by_score_reverse xs) = length xs"
  by (simp add: sort_by_score_reverse_def)









section \<open>Properties of compute_cosine_similarity_matrix\<close>

lemma sum_squares_nonneg: "0 \<le> sum_list (map (\<lambda>x. x\<^sup>2) (xs::real list))"
  by (rule sum_list_nonneg) auto

lemma dot_commute: "dot xs ys = dot ys xs"
proof (induction xs arbitrary: ys)
  case Nil
  then show ?case by (simp add: dot_def)
next
  case (Cons x xs)
  then show ?case by (cases ys) (simp_all add: dot_def mult.commute)
qed

lemma norm_of_nonneg: "0 \<le> norm_of xs"
  by (simp add: norm_of_def sum_squares_nonneg)

lemma cosine_sym: "cosine vec i j = cosine vec j i"
  by (auto simp: cosine_def dot_commute mult.commute)

lemma squareD: "square n A \<Longrightarrow> length A = n" "square n A \<Longrightarrow> a < n \<Longrightarrow> length (A ! a) = n"
  by (simp_all add: square_def)

lemma square_set_cell: "square n A \<Longrightarrow> square n (set_cell A i j v)"
proof -
  assume sq: "square n A"
  have l: "length (set_cell A i j v) = n" using squareD(1)[OF sq] by (simp add: set_cell_def)
  have "length (set_cell A i j v ! a) = n" if "a < n" for a
  proof (cases "a = i")
    case True
    then show ?thesis
      using squareD(1)[OF sq] squareD(2)[OF sq that] that by (simp add: set_cell_def)
  next
    case False
    then show ?thesis
      using squareD(1)[OF sq] squareD(2)[OF sq that] that by (simp add: set_cell_def)
  qed
  with l show ?thesis unfolding square_def by blast
qed

lemma nth_set_cell:
  assumes "square n A" "i < n" "j < n" "a < n" "b < n"
  shows "set_cell A i j v ! a ! b = (if a = i \<and> b = j then v else A ! a ! b)"
proof -
  have l: "length A = n" "length (A ! i) = n"
    using squareD(1)[OF assms(1)] squareD(2)[OF assms(1,2)] by simp_all
  show ?thesis
  proof (cases "a = i")
    case True
    then show ?thesis using l assms(2-5) by (simp add: set_cell_def nth_list_update)
  next
    case False
    then show ?thesis using l assms(2-5) by (simp add: set_cell_def)
  qed
qed

lemma nth_set_cell2:
  assumes "square n A" "i < n" "j < n" "a < n" "b < n"
  shows "set_cell (set_cell A i j v) j i v ! a ! b =
         (if (a = i \<and> b = j) \<or> (a = j \<and> b = i) then v else A ! a ! b)"
proof -
  have "square n (set_cell A i j v)" using assms(1) by (rule square_set_cell)
  then have "set_cell (set_cell A i j v) j i v ! a ! b =
        (if a = j \<and> b = i then v else set_cell A i j v ! a ! b)"
    using assms(3,2,4,5) by (rule nth_set_cell)
  moreover have "set_cell A i j v ! a ! b = (if a = i \<and> b = j then v else A ! a ! b)"
    using assms by (rule nth_set_cell)
  ultimately show ?thesis by presburger
qed

lemma square_similarity_step:
  "square n A \<Longrightarrow> square n (similarity_step vec norms i j A)"
  by (simp add: similarity_step_def Let_def square_set_cell)

lemma nth_similarity_step:
  assumes "square n A" "i < n" "j < n" "a < n" "b < n"
  shows "similarity_step vec (norms_of vec n) i j A ! a ! b =
         (if (a = i \<and> b = j) \<or> (a = j \<and> b = i) then cosine vec a b else A ! a ! b)"
proof (cases "i = j")
  case True
  have "similarity_step vec (norms_of vec n) i j A = set_cell A i j 1"
    using True by (simp add: similarity_step_def)
  moreover have "set_cell A i j 1 ! a ! b = (if a = i \<and> b = j then 1 else A ! a ! b)"
    using assms by (rule nth_set_cell)
  ultimately show ?thesis using True assms by (simp add: cosine_def)
next
  case False
  have "similarity_step vec (norms_of vec n) i j A =
        set_cell (set_cell A i j (cosine vec i j)) j i (cosine vec i j)"
    using False assms(2,3) by (simp add: similarity_step_def cosine_def Let_def norms_of_def)
  moreover have "set_cell (set_cell A i j (cosine vec i j)) j i (cosine vec i j) ! a ! b =
        (if (a = i \<and> b = j) \<or> (a = j \<and> b = i) then cosine vec i j else A ! a ! b)"
    using assms by (rule nth_set_cell2)
  ultimately show ?thesis using cosine_sym[of vec i j] by metis
qed

lemma if_bex_Cons:
  "(if \<exists>j\<in>set js. P j then c else if P j then c else x) =
   (if \<exists>j'\<in>set (j # js). P j' then (c::real) else x)"
  by simp

lemma inner_fold:
  assumes "i < n" "a < n" "b < n"
  shows "square n A \<Longrightarrow> \<forall>j\<in>set js. j < n \<Longrightarrow>
         square n (fold (similarity_step vec (norms_of vec n) i) js A) \<and>
         fold (similarity_step vec (norms_of vec n) i) js A ! a ! b =
           (if \<exists>j\<in>set js. (a = i \<and> b = j) \<or> (a = j \<and> b = i) then cosine vec a b else A ! a ! b)"
proof (induction js arbitrary: A)
  case Nil
  then show ?case by simp
next
  case (Cons j js)
  let ?A = "similarity_step vec (norms_of vec n) i j A"
  have sq: "square n ?A" using Cons.prems(1) by (rule square_similarity_step)
  have j: "j < n" using Cons.prems(2) by simp
  have v: "?A ! a ! b = (if (a = i \<and> b = j) \<or> (a = j \<and> b = i) then cosine vec a b else A ! a ! b)"
    using Cons.prems(1) assms(1) j assms(2,3) by (rule nth_similarity_step)
  have "\<forall>j\<in>set js. j < n" using Cons.prems(2) by simp
  from Cons.IH[OF sq this]
  have s1: "square n (fold (similarity_step vec (norms_of vec n) i) js ?A)"
    and s2: "fold (similarity_step vec (norms_of vec n) i) js ?A ! a ! b =
      (if \<exists>j\<in>set js. (a = i \<and> b = j) \<or> (a = j \<and> b = i) then cosine vec a b else ?A ! a ! b)"
    by blast+
  have "fold (similarity_step vec (norms_of vec n) i) (j # js) A ! a ! b =
      (if \<exists>j\<in>set js. (a = i \<and> b = j) \<or> (a = j \<and> b = i) then cosine vec a b
       else if (a = i \<and> b = j) \<or> (a = j \<and> b = i) then cosine vec a b else A ! a ! b)"
    using s2 by (simp only: fold_Cons comp_apply v)
  then have "fold (similarity_step vec (norms_of vec n) i) (j # js) A ! a ! b =
      (if \<exists>j\<in>set (j # js). (a = i \<and> b = j) \<or> (a = j \<and> b = i) then cosine vec a b else A ! a ! b)"
    using if_bex_Cons[of js "\<lambda>j. (a = i \<and> b = j) \<or> (a = j \<and> b = i)" "cosine vec a b" j "A ! a ! b"]
    by (simp only:)
  with s1 show ?case by simp
qed

lemma outer_fold:
  assumes "a < n" "b < n"
  shows "square n A \<Longrightarrow> \<forall>i\<in>set is. i < n \<Longrightarrow>
         square n (fold (\<lambda>i A. fold (similarity_step vec (norms_of vec n) i) [i..<n] A) is A) \<and>
         fold (\<lambda>i A. fold (similarity_step vec (norms_of vec n) i) [i..<n] A) is A ! a ! b =
           (if \<exists>i\<in>set is. \<exists>j\<in>{i..<n}. (a = i \<and> b = j) \<or> (a = j \<and> b = i) then cosine vec a b else A ! a ! b)"
proof (induction "is" arbitrary: A)
  case Nil
  then show ?case by simp
next
  case (Cons i "is")
  let ?A = "fold (similarity_step vec (norms_of vec n) i) [i..<n] A"
  have i: "i < n" using Cons.prems(2) by simp
  have in1: "square n ?A \<and> ?A ! a ! b =
      (if \<exists>j\<in>set [i..<n]. (a = i \<and> b = j) \<or> (a = j \<and> b = i) then cosine vec a b else A ! a ! b)"
    using i assms Cons.prems(1) by (rule inner_fold) simp
  then have sq: "square n ?A" by blast
  have "\<forall>i\<in>set is. i < n" using Cons.prems(2) by simp
  from Cons.IH[OF sq this]
  have s1: "square n (fold (\<lambda>i A. fold (similarity_step vec (norms_of vec n) i) [i..<n] A) is ?A)"
    and s2: "fold (\<lambda>i A. fold (similarity_step vec (norms_of vec n) i) [i..<n] A) is ?A ! a ! b =
      (if \<exists>i\<in>set is. \<exists>j\<in>{i..<n}. (a = i \<and> b = j) \<or> (a = j \<and> b = i) then cosine vec a b
       else ?A ! a ! b)"
    by blast+
  have v: "?A ! a ! b =
      (if \<exists>j\<in>{i..<n}. (a = i \<and> b = j) \<or> (a = j \<and> b = i) then cosine vec a b else A ! a ! b)"
    using in1 by simp
  have "fold (\<lambda>i A. fold (similarity_step vec (norms_of vec n) i) [i..<n] A) (i # is) A ! a ! b =
      (if \<exists>i\<in>set is. \<exists>j\<in>{i..<n}. (a = i \<and> b = j) \<or> (a = j \<and> b = i) then cosine vec a b
       else if \<exists>j\<in>{i..<n}. (a = i \<and> b = j) \<or> (a = j \<and> b = i) then cosine vec a b else A ! a ! b)"
    using s2 by (simp only: fold_Cons comp_apply v)
  then have "fold (\<lambda>i A. fold (similarity_step vec (norms_of vec n) i) [i..<n] A) (i # is) A ! a ! b =
      (if \<exists>i\<in>set (i # is). \<exists>j\<in>{i..<n}. (a = i \<and> b = j) \<or> (a = j \<and> b = i) then cosine vec a b
       else A ! a ! b)"
    using if_bex_Cons[of "is" "\<lambda>i. \<exists>j\<in>{i..<n}. (a = i \<and> b = j) \<or> (a = j \<and> b = i)"
        "cosine vec a b" i "A ! a ! b"]
    by (simp only:)
  with s1 show ?case by simp
qed

lemma square_zeros: "square n (zeros n n)"
  by (simp add: square_def zeros_def)

lemma similarity_loops_cell:
  assumes "a < n" "b < n"
  shows "similarity_loops vec n ! a ! b = cosine vec a b"
    and "square n (similarity_loops vec n)"
proof -
  have *: "square n (similarity_loops vec n) \<and> similarity_loops vec n ! a ! b =
     (if \<exists>i\<in>set [0..<n]. \<exists>j\<in>{i..<n}. (a = i \<and> b = j) \<or> (a = j \<and> b = i) then cosine vec a b
      else zeros n n ! a ! b)"
    unfolding similarity_loops_def Let_def
    using assms square_zeros by (rule outer_fold) simp
  have "\<exists>i\<in>set [0..<n]. \<exists>j\<in>{i..<n}. (a = i \<and> b = j) \<or> (a = j \<and> b = i)"
  proof (cases "a \<le> b")
    case True
    then show ?thesis using assms by (intro bexI[of _ a] bexI[of _ b]) auto
  next
    case False
    then show ?thesis using assms by (intro bexI[of _ b] bexI[of _ a]) auto
  qed
  with * show "similarity_loops vec n ! a ! b = cosine vec a b" by simp
  from * show "square n (similarity_loops vec n)" by simp
qed

lemma cosine_formula:
  assumes "i \<noteq> j" "norm_of (vec i) \<noteq> 0" "norm_of (vec j) \<noteq> 0"
  shows "cosine vec i j = dot (vec i) (vec j) / (norm_of (vec i) * norm_of (vec j))"
  using assms norm_of_nonneg[of "vec i"] norm_of_nonneg[of "vec j"] by (simp add: cosine_def)

lemma cosine_zero:
  assumes "i \<noteq> j" "norm_of (vec i) = 0 \<or> norm_of (vec j) = 0"
  shows "cosine vec i j = 0"
  using assms by (auto simp: cosine_def)

text \<open>
  Claim C2, as amended. For every matrix \<open>M\<close> with \<open>n\<close> rows,
  compute_cosine_similarity_matrix returns an \<open>n \<times> n\<close> matrix that is symmetric and has
  every diagonal entry equal to \<open>1\<close>, also for a zero row. An entry \<open>(i, j)\<close> off the
  diagonal is \<open>0\<close> when row \<open>i\<close> or row \<open>j\<close> has norm zero, and otherwise it is the
  quotient \<open>dot(row_i, row_j) / (\<parallel>row_i\<parallel> * \<parallel>row_j\<parallel>)\<close> as the code computes it. The
  quotient is not clipped, and no bound on it is stated: in float64 it can leave
  \<open>[-1, 1]\<close> by rounding.
\<close>

theorem compute_cosine_similarity_matrix_properties:
  "length (compute_cosine_similarity_matrix M) = length M \<and>
   (\<forall>i<length M. length (compute_cosine_similarity_matrix M ! i) = length M) \<and>
   (\<forall>i<length M. \<forall>j<length M.
      compute_cosine_similarity_matrix M ! i ! j = compute_cosine_similarity_matrix M ! j ! i \<and>
      compute_cosine_similarity_matrix M ! i ! i = 1 \<and>
      (i \<noteq> j \<and> (norm_of (M ! i) = 0 \<or> norm_of (M ! j) = 0) \<longrightarrow>
         compute_cosine_similarity_matrix M ! i ! j = 0) \<and>
      (i \<noteq> j \<and> norm_of (M ! i) \<noteq> 0 \<and> norm_of (M ! j) \<noteq> 0 \<longrightarrow>
         compute_cosine_similarity_matrix M ! i ! j =
           dot (M ! i) (M ! j) / (norm_of (M ! i) * norm_of (M ! j))))"
proof (intro conjI allI impI)
  let ?R = "compute_cosine_similarity_matrix M"
  let ?vec = "\<lambda>i. M ! i"
  show "length ?R = length M"
  proof (cases "length M = 0")
    case True
    then show ?thesis
      by (simp add: compute_cosine_similarity_matrix_def similarity_loops_def zeros_def)
  next
    case False
    then have "0 < length M" by simp
    from similarity_loops_cell(2)[OF this this, of ?vec] show ?thesis
      by (simp add: compute_cosine_similarity_matrix_def square_def)
  qed
  fix i assume i: "i < length M"
  have sq: "square (length M) ?R"
    unfolding compute_cosine_similarity_matrix_def using i i by (rule similarity_loops_cell(2))
  show "length (?R ! i) = length M" using sq i by (simp add: square_def)
  have cell: "?R ! a ! b = cosine ?vec a b" if "a < length M" "b < length M" for a b
    unfolding compute_cosine_similarity_matrix_def using that by (rule similarity_loops_cell(1))
  show "?R ! i ! i = 1" by (simp add: cell i cosine_def)
  fix j assume j: "j < length M"
  show "?R ! i ! j = ?R ! j ! i" using cosine_sym[of ?vec i j] by (simp add: cell i j)
  show "?R ! i ! j = 0" if "i \<noteq> j \<and> (norm_of (M ! i) = 0 \<or> norm_of (M ! j) = 0)"
    using cosine_zero[of i j ?vec] that by (simp add: cell i j)
  show "?R ! i ! j = dot (M ! i) (M ! j) / (norm_of (M ! i) * norm_of (M ! j))"
    if "i \<noteq> j \<and> norm_of (M ! i) \<noteq> 0 \<and> norm_of (M ! j) \<noteq> 0"
    using cosine_formula[of i j ?vec] that by (simp add: cell i j)
qed

text \<open>
  Claim C2 as stated asks for entry \<open>(i, j)\<close> to be \<open>0\<close> whenever row \<open>i\<close> or row \<open>j\<close>
  has norm zero, the diagonal included. The code sets the diagonal to \<open>1.0\<close> first: for
  the one-row zero matrix the only entry is \<open>1\<close>.
\<close>

theorem cosine_zero_row_diagonal_counterexample:
  "norm_of ([[0]] ! 0) = 0 \<and> compute_cosine_similarity_matrix [[0]] ! 0 ! 0 = 1"
  by (simp add: norm_of_def compute_cosine_similarity_matrix_def similarity_loops_def
        norms_of_def similarity_step_def set_cell_def zeros_def)

lemma sqrt_25: "sqrt 25 = 5"
  by (rule real_sqrt_unique) simp_all

theorem compute_cosine_similarity_matrix_properties_witness:
  "compute_cosine_similarity_matrix [[5, 0, 0], [0, 5, 0], [5, 0, 0], [0, 0, 0]] ! 0 ! 1 = 0 \<and>
   compute_cosine_similarity_matrix [[5, 0, 0], [0, 5, 0], [5, 0, 0], [0, 0, 0]] ! 0 ! 2 = 1 \<and>
   compute_cosine_similarity_matrix [[5, 0, 0], [0, 5, 0], [5, 0, 0], [0, 0, 0]] ! 0 ! 3 = 0 \<and>
   compute_cosine_similarity_matrix [[5, 0, 0], [0, 5, 0], [5, 0, 0], [0, 0, 0]] ! 3 ! 3 = 1"
proof -
  let ?M = "[[5, 0, 0], [0, 5, 0], [5, 0, 0], [0, 0, 0]] :: matrix"
  note p = compute_cosine_similarity_matrix_properties[of ?M]
  have c: "\<forall>i<length ?M. \<forall>j<length ?M.
      compute_cosine_similarity_matrix ?M ! i ! i = 1 \<and>
      (i \<noteq> j \<and> (norm_of (?M ! i) = 0 \<or> norm_of (?M ! j) = 0) \<longrightarrow>
         compute_cosine_similarity_matrix ?M ! i ! j = 0) \<and>
      (i \<noteq> j \<and> norm_of (?M ! i) \<noteq> 0 \<and> norm_of (?M ! j) \<noteq> 0 \<longrightarrow>
         compute_cosine_similarity_matrix ?M ! i ! j =
           dot (?M ! i) (?M ! j) / (norm_of (?M ! i) * norm_of (?M ! j)))"
    using p by blast
  have n: "norm_of (?M ! 0) = 5" "norm_of (?M ! 1) = 5" "norm_of (?M ! 2) = 5" "norm_of (?M ! 3) = 0"
    by (simp_all add: norm_of_def sqrt_25)
  have "compute_cosine_similarity_matrix ?M ! 0 ! 1 = 0"
    using c[rule_format, of 0 1] n by (simp add: dot_def)
  moreover have "compute_cosine_similarity_matrix ?M ! 0 ! 2 = 1"
    using c[rule_format, of 0 2] n by (simp add: dot_def)
  moreover have "compute_cosine_similarity_matrix ?M ! 0 ! 3 = 0"
    using c[rule_format, of 0 3] n by simp
  moreover have "compute_cosine_similarity_matrix ?M ! 3 ! 3 = 1"
    using c[rule_format, of 3 3] by simp
  ultimately show ?thesis by blast
qed

section \<open>Properties of prepare_interaction_data\<close>

lemma has_shapeD:
  "has_shape r c A \<Longrightarrow> length A = r" "has_shape r c A \<Longrightarrow> a < r \<Longrightarrow> length (A ! a) = c"
  by (simp_all add: has_shape_def)

lemma has_shape_zeros: "has_shape r c (zeros r c)"
  by (simp add: has_shape_def zeros_def)

lemma has_shape_set_cell: "has_shape r c A \<Longrightarrow> has_shape r c (set_cell A i j v)"
proof -
  assume sh: "has_shape r c A"
  have l: "length (set_cell A i j v) = r" using has_shapeD(1)[OF sh] by (simp add: set_cell_def)
  have "length (set_cell A i j v ! a) = c" if "a < r" for a
  proof (cases "a = i")
    case True
    then show ?thesis
      using has_shapeD(1)[OF sh] has_shapeD(2)[OF sh that] that by (simp add: set_cell_def)
  next
    case False
    then show ?thesis
      using has_shapeD(1)[OF sh] has_shapeD(2)[OF sh that] that by (simp add: set_cell_def)
  qed
  with l show ?thesis unfolding has_shape_def by blast
qed

lemma nth_set_cell_shape:
  assumes "has_shape r c A" "i < r" "j < c" "a < r" "b < c"
  shows "set_cell A i j v ! a ! b = (if a = i \<and> b = j then v else A ! a ! b)"
proof -
  have l: "length A = r" "length (A ! i) = c"
    using has_shapeD(1)[OF assms(1)] has_shapeD(2)[OF assms(1,2)] by simp_all
  show ?thesis
  proof (cases "a = i")
    case True
    then show ?thesis using l assms(2-5) by (simp add: set_cell_def nth_list_update)
  next
    case False
    then show ?thesis using l assms(2-5) by (simp add: set_cell_def)
  qed
qed

lemma fill_loop_cells:
  assumes inj_u: "\<And>s s' r. um s = Some r \<Longrightarrow> um s' = Some r \<Longrightarrow> s = s'"
    and inj_i: "\<And>p p' c. im p = Some c \<Longrightarrow> im p' = Some c \<Longrightarrow> p = p'"
    and k: "um k = Some a" "im q = Some b" "a < nu" "b < ni"
  shows "has_shape nu ni A \<Longrightarrow> distinct (map fst rows) \<Longrightarrow>
         (\<forall>row\<in>set rows. \<exists>r c. um (fst (fst row)) = Some r \<and> r < nu \<and>
                                     im (snd (fst row)) = Some c \<and> c < ni) \<Longrightarrow>
         \<exists>A'. fill_loop um im rows A = Inr A' \<and> has_shape nu ni A' \<and>
               A' ! a ! b = (case map_of rows (k, q) of Some weight \<Rightarrow> weight | None \<Rightarrow> A ! a ! b)"
proof (induction rows arbitrary: A)
  case Nil
  then show ?case by simp
next
  case (Cons row rows)
  obtain s p weight where row: "row = ((s, p), weight)" by (metis prod.exhaust)
  from Cons.prems(3) row obtain r c where rc: "um s = Some r" "r < nu" "im p = Some c" "c < ni"
    by auto
  let ?A = "set_cell A r c weight"
  have sh: "has_shape nu ni ?A" using Cons.prems(1) by (rule has_shape_set_cell)
  have d: "distinct (map fst rows)" using Cons.prems(2) by simp
  have all: "\<forall>row\<in>set rows. \<exists>r c. um (fst (fst row)) = Some r \<and> r < nu \<and>
                                     im (snd (fst row)) = Some c \<and> c < ni"
    using Cons.prems(3) by simp
  from Cons.IH[OF sh d all] obtain A' where A': "fill_loop um im rows ?A = Inr A'"
    "has_shape nu ni A'"
    "A' ! a ! b = (case map_of rows (k, q) of Some weight \<Rightarrow> weight | None \<Rightarrow> ?A ! a ! b)"
    by blast
  have inb: "r < length A" "c < length (A ! r)"
    using has_shapeD(1)[OF Cons.prems(1)] has_shapeD(2)[OF Cons.prems(1) rc(2)] rc by simp_all
  have step: "fill_loop um im (row # rows) A = Inr A'"
    using A'(1) rc inb by (simp add: row)
  have cellv: "?A ! a ! b = (if a = r \<and> b = c then weight else A ! a ! b)"
    using Cons.prems(1) rc(2,4) k(3,4) by (rule nth_set_cell_shape)
  have val: "A' ! a ! b =
      (case map_of (row # rows) (k, q) of Some weight \<Rightarrow> weight | None \<Rightarrow> A ! a ! b)"
  proof (cases "(s, p) = (k, q)")
    case True
    then have "(k, q) \<notin> fst ` set rows" using Cons.prems(2) row by auto
    then have "map_of rows (k, q) = None" by (simp add: map_of_eq_None_iff)
    moreover have "a = r" "b = c" using True rc k by simp_all
    ultimately show ?thesis using A'(3) cellv True row by simp
  next
    case False
    have "\<not> (a = r \<and> b = c)"
    proof
      assume "a = r \<and> b = c"
      then have "s = k" "p = q" using inj_u[OF rc(1), of k] inj_i[OF rc(3), of q] k by simp_all
      with False show False by simp
    qed
    then have c1: "?A ! a ! b = A ! a ! b" using cellv by presburger
    have "(k, q) \<noteq> (s, p)" using False by metis
    then have c2: "map_of (row # rows) (k, q) = map_of rows (k, q)" unfolding row by auto
    show ?thesis unfolding c2 using A'(3) c1 by (simp only:)
  qed
  from step A'(2) val show ?case by blast
qed


lemma distinct_pd_unique: "distinct (pd_unique xs)"
  by (simp add: pd_unique_def)

lemma set_pd_unique: "set (pd_unique xs) = set xs"
  by (simp add: pd_unique_def)

lemma dict_of_Some_iff:
  "distinct (map fst kvs) \<Longrightarrow> dict_of kvs k = Some v \<longleftrightarrow> (k, v) \<in> set kvs"
  by (simp add: dict_of_def rev_map[symmetric])

lemma index_dict:
  assumes "distinct xs"
  shows "dict_of (map (\<lambda>(idx, x). (x, idx)) (enumerate 0 xs)) x = Some i \<longleftrightarrow>
         i < length xs \<and> xs ! i = x"
proof -
  have "map fst (map (\<lambda>(idx, x). (x, idx)) (enumerate 0 xs)) = xs"
    by (simp add: comp_def case_prod_unfold)
  then have "dict_of (map (\<lambda>(idx, x). (x, idx)) (enumerate 0 xs)) x = Some i \<longleftrightarrow>
        (x, i) \<in> set (map (\<lambda>(idx, x). (x, idx)) (enumerate 0 xs))"
    using assms by (simp add: dict_of_Some_iff)
  also have "\<dots> \<longleftrightarrow> (i, x) \<in> set (enumerate 0 xs)" by auto
  also have "\<dots> \<longleftrightarrow> i < length xs \<and> xs ! i = x" by (auto simp: in_set_enumerate_eq)
  finally show ?thesis .
qed

lemma reverse_dict:
  assumes "distinct xs"
  shows "dict_of (map (\<lambda>(x, idx). (idx, x)) (map (\<lambda>(idx, x). (x, idx)) (enumerate 0 xs))) i = Some x
         \<longleftrightarrow> i < length xs \<and> xs ! i = x"
proof -
  have e: "map (\<lambda>(x, idx). (idx, x)) (map (\<lambda>(idx, x). (x, idx)) (enumerate 0 xs)) = enumerate 0 xs"
    by (simp add: comp_def case_prod_unfold)
  have "distinct (map fst (enumerate 0 xs))" by simp
  then have "dict_of (enumerate 0 xs) i = Some x \<longleftrightarrow> (i, x) \<in> set (enumerate 0 xs)"
    by (rule dict_of_Some_iff)
  then show ?thesis unfolding e by (auto simp: in_set_enumerate_eq)
qed

lemma groupby_sum_keys:
  "map fst (groupby_sum rows) = sort (remdups (map (\<lambda>(s, p, weight). (s, p)) rows))"
  by (simp add: groupby_sum_def comp_def)

lemma distinct_groupby_sum: "distinct (map fst (groupby_sum rows))"
  by (simp add: groupby_sum_keys)

lemma set_groupby_sum_keys:
  "fst ` set (groupby_sum rows) = (\<lambda>(s, p, weight). (s, p)) ` set rows"
proof -
  have "set (map fst (groupby_sum rows)) = (\<lambda>(s, p, weight). (s, p)) ` set rows"
    unfolding groupby_sum_keys by simp
  then show ?thesis by simp
qed

lemma map_of_groupby_sum:
  "map_of (groupby_sum rows) k =
     (if k \<in> (\<lambda>(s, p, weight). (s, p)) ` set rows
      then Some (sum_list (map (\<lambda>(s, p, weight). weight) (filter (\<lambda>(s, p, weight). (s, p) = k) rows)))
      else None)"
proof -
  have *: "map_of (map (\<lambda>k. (k, f k)) ks) k = (if k \<in> set ks then Some (f k) else None)"
    for f :: "string \<times> int \<Rightarrow> real" and ks
    by (induction ks) auto
  show ?thesis unfolding groupby_sum_def * by simp
qed

lemma data_filter:
  "map (\<lambda>(s, p, weight). weight)
     (filter (\<lambda>(s, p, weight). (s, p) = (k, q))
        (map (\<lambda>e. (session_key e, product_id e, get_interaction_weight (interaction_type e))) events))
   = map (\<lambda>e. get_interaction_weight (interaction_type e))
       (filter (\<lambda>e. session_key e = k \<and> product_id e = q) events)"
  by (induction events) auto


lemma prepare_interaction_data_cells:
  assumes ne: "interactions w \<noteq> []"
  shows "\<exists>M um im rum rim.
     prepare_interaction_data w s =
       (Some M, w, s\<lparr>user_mapping := um, item_mapping := im,
                      reverse_user_mapping := rum, reverse_item_mapping := rim\<rparr>) \<and>
     has_shape (card (session_key ` set (interactions w)))
               (card (product_id ` set (interactions w))) M \<and>
     dom um = session_key ` set (interactions w) \<and>
     dom im = product_id ` set (interactions w) \<and>
     (\<forall>k a. um k = Some a \<longleftrightarrow> rum a = Some k) \<and>
     (\<forall>q b. im q = Some b \<longleftrightarrow> rim b = Some q) \<and>
     (\<forall>k q a b. um k = Some a \<and> im q = Some b \<longrightarrow>
        a < length M \<and> b < length (M ! a) \<and> M ! a ! b = pair_weight (interactions w) k q) \<and>
     (\<forall>a<length M. \<forall>b<length (M ! a). \<exists>k q. um k = Some a \<and> im q = Some b)"
proof -
  define events where "events = interactions w"
  define data where "data =
    map (\<lambda>e. (session_key e, product_id e, get_interaction_weight (interaction_type e))) events"
  define df where "df = groupby_sum data"
  define us where "us = pd_unique (map (\<lambda>((s, p), weight). s) df)"
  define its where "its = pd_unique (map (\<lambda>((s, p), weight). p) df)"
  define um where "um = dict_of (map (\<lambda>(idx, user). (user, idx)) (enumerate 0 us))"
  define im where "im = dict_of (map (\<lambda>(idx, item). (item, idx)) (enumerate 0 its))"
  define rum where "rum = dict_of (map (\<lambda>(user, idx). (idx, user))
                            (map (\<lambda>(idx, user). (user, idx)) (enumerate 0 us)))"
  define rim where "rim = dict_of (map (\<lambda>(item, idx). (idx, item))
                            (map (\<lambda>(idx, item). (item, idx)) (enumerate 0 its)))"
  define nu where "nu = length us"
  define ni where "ni = length its"
  have keys: "fst ` set df = (\<lambda>e. (session_key e, product_id e)) ` set events"
    unfolding df_def data_def set_groupby_sum_keys by (simp add: image_image)
  have m1: "(\<lambda>((s, p), weight). s) = (\<lambda>row::(string \<times> int) \<times> real. fst (fst row))"
    and m2: "(\<lambda>((s, p), weight). p) = (\<lambda>row::(string \<times> int) \<times> real. snd (fst row))"
    by (simp_all add: fun_eq_iff)
  have set_us: "set us = session_key ` set events"
  proof -
    have "set us = fst ` fst ` set df" unfolding us_def m1 by (simp add: set_pd_unique image_image)
    then show ?thesis unfolding keys by (simp add: image_image)
  qed
  have set_its: "set its = product_id ` set events"
  proof -
    have "set its = snd ` fst ` set df" unfolding its_def m2 by (simp add: set_pd_unique image_image)
    then show ?thesis unfolding keys by (simp add: image_image)
  qed
  have d_us: "distinct us" unfolding us_def by (rule distinct_pd_unique)
  have d_its: "distinct its" unfolding its_def by (rule distinct_pd_unique)
  have um: "um k = Some a \<longleftrightarrow> a < nu \<and> us ! a = k" for k a
    unfolding um_def nu_def using d_us by (rule index_dict)
  have im: "im q = Some b \<longleftrightarrow> b < ni \<and> its ! b = q" for q b
    unfolding im_def ni_def using d_its by (rule index_dict)
  have rum: "rum a = Some k \<longleftrightarrow> a < nu \<and> us ! a = k" for k a
    unfolding rum_def nu_def using d_us by (rule reverse_dict)
  have rim: "rim b = Some q \<longleftrightarrow> b < ni \<and> its ! b = q" for q b
    unfolding rim_def ni_def using d_its by (rule reverse_dict)
  have nu: "nu = card (session_key ` set events)"
    using distinct_card[OF d_us] set_us by (simp add: nu_def)
  have ni: "ni = card (product_id ` set events)"
    using distinct_card[OF d_its] set_its by (simp add: ni_def)
  have "dom um = set us" using um by (auto simp: dom_def in_set_conv_nth nu_def)
  then have dom_um: "dom um = session_key ` set events" using set_us by simp
  have "dom im = set its" using im by (auto simp: dom_def in_set_conv_nth ni_def)
  then have dom_im: "dom im = product_id ` set events" using set_its by simp
  have rows_ok: "\<forall>row\<in>set df. \<exists>r c. um (fst (fst row)) = Some r \<and> r < nu \<and>
                                     im (snd (fst row)) = Some c \<and> c < ni"
  proof
    fix row assume row: "row \<in> set df"
    then have "fst (fst row) \<in> set us" "snd (fst row) \<in> set its"
      unfolding us_def its_def m1 m2 by (simp_all add: set_pd_unique)
    then obtain r c where "r < nu" "us ! r = fst (fst row)" "c < ni" "its ! c = snd (fst row)"
      unfolding in_set_conv_nth nu_def ni_def by blast
    then show "\<exists>r c. um (fst (fst row)) = Some r \<and> r < nu \<and>
                     im (snd (fst row)) = Some c \<and> c < ni"
      using um im by blast
  qed
  have inj_u: "s1 = s2" if "um s1 = Some r" "um s2 = Some r" for s1 s2 r
    using that um by auto
  have inj_i: "p1 = p2" if "im p1 = Some c" "im p2 = Some c" for p1 p2 c
    using that im by auto
  have d_df: "distinct (map fst df)" unfolding df_def by (rule distinct_groupby_sum)
  have pos: "0 < nu" "0 < ni"
  proof -
    have "set us \<noteq> {}" "set its \<noteq> {}" using ne set_us set_its by (simp_all add: events_def)
    then show "0 < nu" "0 < ni" by (simp_all add: nu_def ni_def)
  qed
  have um0: "um (us ! 0) = Some 0" and im0: "im (its ! 0) = Some 0"
    using um[of "us ! 0" 0] im[of "its ! 0" 0] pos by simp_all
  have "\<exists>A'. fill_loop um im df (zeros nu ni) = Inr A' \<and> has_shape nu ni A' \<and>
          A' ! 0 ! 0 = (case map_of df (us ! 0, its ! 0) of Some weight \<Rightarrow> weight
                        | None \<Rightarrow> zeros nu ni ! 0 ! 0)"
    using inj_u inj_i um0 im0 pos has_shape_zeros d_df rows_ok by (rule fill_loop_cells)
  then obtain M where M: "fill_loop um im df (zeros nu ni) = Inr M" "has_shape nu ni M"
    by (elim exE conjE)
  have res: "prepare_interaction_data w s =
       (Some M, w, s\<lparr>user_mapping := um, item_mapping := im,
                      reverse_user_mapping := rum, reverse_item_mapping := rim\<rparr>)"
  proof -
    have "data \<noteq> []" using ne by (simp add: data_def events_def)
    then show ?thesis
      unfolding prepare_interaction_data_def Let_def
      using ne M(1)
      unfolding um_def im_def rum_def rim_def nu_def ni_def us_def its_def df_def data_def events_def
      by simp
  qed
  have cells: "a < length M \<and> b < length (M ! a) \<and> M ! a ! b = pair_weight events k q"
    if kq: "um k = Some a" "im q = Some b" for k q a b
  proof -
    have ab: "a < nu" "b < ni" using kq um im by simp_all
    have "\<exists>A'. fill_loop um im df (zeros nu ni) = Inr A' \<and> has_shape nu ni A' \<and>
          A' ! a ! b = (case map_of df (k, q) of Some weight \<Rightarrow> weight
                        | None \<Rightarrow> zeros nu ni ! a ! b)"
      using inj_u inj_i kq ab has_shape_zeros d_df rows_ok by (rule fill_loop_cells)
    then have v: "M ! a ! b = (case map_of df (k, q) of Some weight \<Rightarrow> weight
                     | None \<Rightarrow> zeros nu ni ! a ! b)"
      using M(1) by auto
    have z: "zeros nu ni ! a ! b = 0" using ab by (simp add: zeros_def)
    have "M ! a ! b = pair_weight events k q"
    proof (cases "(k, q) \<in> (\<lambda>(s, p, weight). (s, p)) ` set data")
      case True
      then have "map_of df (k, q) =
          Some (sum_list (map (\<lambda>(s, p, weight). weight)
                  (filter (\<lambda>(s, p, weight). (s, p) = (k, q)) data)))"
        unfolding df_def map_of_groupby_sum by (simp only: if_True)
      then have "map_of df (k, q) = Some (pair_weight events k q)"
        unfolding data_def data_filter pair_weight_def .
      then show ?thesis using v by simp
    next
      case False
      then have "filter (\<lambda>e. session_key e = k \<and> product_id e = q) events = []"
        unfolding data_def by (auto simp: filter_empty_conv image_iff)
      then have "pair_weight events k q = 0" by (simp add: pair_weight_def)
      moreover have "map_of df (k, q) = None"
        using False unfolding df_def map_of_groupby_sum by simp
      ultimately show ?thesis using v z by simp
    qed
    then show ?thesis using ab has_shapeD[OF M(2)] by simp
  qed
  have maps: "(um k = Some a) = (rum a = Some k)" "(im q = Some b) = (rim b = Some q)" for k a q b
    using um rum im rim by simp_all
  have onto: "\<exists>k q. um k = Some a \<and> im q = Some b" if "a < length M" "b < length (M ! a)" for a b
  proof -
    have "a < nu" using that(1) has_shapeD(1)[OF M(2)] by simp
    moreover from this have "b < ni" using that(2) has_shapeD(2)[OF M(2)] by simp
    ultimately show ?thesis using um im by blast
  qed
  have shape: "has_shape (card (session_key ` set (interactions w)))
                 (card (product_id ` set (interactions w))) M"
    using M(2) unfolding nu ni events_def .
  have c1: "\<forall>k a. um k = Some a \<longleftrightarrow> rum a = Some k" using maps(1) by blast
  have c2: "\<forall>q b. im q = Some b \<longleftrightarrow> rim b = Some q" using maps(2) by blast
  have c3: "\<forall>k q a b. um k = Some a \<and> im q = Some b \<longrightarrow>
        a < length M \<and> b < length (M ! a) \<and> M ! a ! b = pair_weight (interactions w) k q"
    using cells unfolding events_def by blast
  have c4: "\<forall>a<length M. \<forall>b<length (M ! a). \<exists>k q. um k = Some a \<and> im q = Some b"
    using onto by blast
  show ?thesis
    apply (rule exI[of _ M], rule exI[of _ um], rule exI[of _ im], rule exI[of _ rum],
           rule exI[of _ rim])
    apply (intro conjI)
          apply (rule res)
         apply (rule shape)
        apply (rule dom_um[unfolded events_def])
       apply (rule dom_im[unfolded events_def])
      apply (rule c1)
     apply (rule c2)
    apply (rule c3)
    apply (rule c4)
    done
qed


text \<open>
  Claim C5. The interaction weight is defined for every interaction type: \<open>1\<close> for view,
  \<open>3\<close> for like, \<open>-2\<close> for dislike, \<open>5\<close> for purchase and \<open>1\<close> for any other type. When
  the interaction table is not empty, prepare_interaction_data returns a matrix; every
  session and every product of the table has an index, every cell belongs to a session and
  a product, and for every session \<open>k\<close> with row index \<open>a\<close> and product \<open>q\<close> with column
  index \<open>b\<close> the cell \<open>[a, b]\<close> is the sum of the weights of all interaction rows of the
  pair \<open>(k, q)\<close>; two like rows of one pair give \<open>6\<close>.
\<close>

theorem interaction_weights_accumulate:
  assumes "interactions w \<noteq> []"
  shows "get_interaction_weight ''view'' = 1 \<and> get_interaction_weight ''like'' = 3 \<and>
   get_interaction_weight ''dislike'' = - 2 \<and> get_interaction_weight ''purchase'' = 5 \<and>
   (\<forall>kind. kind \<notin> {''view'', ''like'', ''dislike'', ''purchase''} \<longrightarrow>
             get_interaction_weight kind = 1) \<and>
   (\<exists>M s'. prepare_interaction_data w s = (Some M, w, s') \<and>
         dom (user_mapping s') = session_key ` set (interactions w) \<and>
         dom (item_mapping s') = product_id ` set (interactions w) \<and>
         (\<forall>k q a b. user_mapping s' k = Some a \<and> item_mapping s' q = Some b \<longrightarrow>
            a < length M \<and> b < length (M ! a) \<and>
            M ! a ! b = pair_weight (interactions w) k q) \<and>
         (\<forall>a<length M. \<forall>b<length (M ! a). \<exists>k q.
            user_mapping s' k = Some a \<and> item_mapping s' q = Some b))"
proof (intro conjI)
  show "get_interaction_weight ''view'' = 1" "get_interaction_weight ''like'' = 3"
    "get_interaction_weight ''dislike'' = - 2" "get_interaction_weight ''purchase'' = 5"
    by (simp_all add: get_interaction_weight_def)
  show "\<forall>kind. kind \<notin> {''view'', ''like'', ''dislike'', ''purchase''} \<longrightarrow>
             get_interaction_weight kind = 1"
    by (simp add: get_interaction_weight_def)
  from prepare_interaction_data_cells[OF assms, of s] obtain M um im rum rim where
    r: "prepare_interaction_data w s =
          (Some M, w, s\<lparr>user_mapping := um, item_mapping := im,
                         reverse_user_mapping := rum, reverse_item_mapping := rim\<rparr>)"
    and dm: "dom um = session_key ` set (interactions w)"
       "dom im = product_id ` set (interactions w)"
    and c: "\<forall>k q a b. um k = Some a \<and> im q = Some b \<longrightarrow>
      a < length M \<and> b < length (M ! a) \<and> M ! a ! b = pair_weight (interactions w) k q"
    and o: "\<forall>a<length M. \<forall>b<length (M ! a). \<exists>k q. um k = Some a \<and> im q = Some b"
    by (elim exE conjE)
  show "\<exists>M s'. prepare_interaction_data w s = (Some M, w, s') \<and>
         dom (user_mapping s') = session_key ` set (interactions w) \<and>
         dom (item_mapping s') = product_id ` set (interactions w) \<and>
         (\<forall>k q a b. user_mapping s' k = Some a \<and> item_mapping s' q = Some b \<longrightarrow>
            a < length M \<and> b < length (M ! a) \<and>
            M ! a ! b = pair_weight (interactions w) k q) \<and>
         (\<forall>a<length M. \<forall>b<length (M ! a). \<exists>k q.
            user_mapping s' k = Some a \<and> item_mapping s' q = Some b)"
    by (rule exI[of _ M], rule exI, rule conjI, rule r) (use dm c o in simp)
qed

theorem interaction_weights_accumulate_witness:
  "\<exists>M. fst (prepare_interaction_data
            \<lparr>products = [],
             interactions = [interaction_row ''s1'' 1 ''like'' 0, interaction_row ''s1'' 1 ''like'' 1],
             logged = []\<rparr> init_service) = Some M \<and> M = [[6]] \<and> M ! 0 ! 0 = 6"
proof -
  let ?w = "\<lparr>products = [],
             interactions = [interaction_row ''s1'' 1 ''like'' 0, interaction_row ''s1'' 1 ''like'' 1],
             logged = []\<rparr>"
  have ne: "interactions ?w \<noteq> []" by simp
  note t = interaction_weights_accumulate[OF ne, of init_service]
  have "\<exists>M s'. prepare_interaction_data ?w init_service = (Some M, ?w, s') \<and>
         dom (user_mapping s') = session_key ` set (interactions ?w) \<and>
         dom (item_mapping s') = product_id ` set (interactions ?w) \<and>
         (\<forall>k q a b. user_mapping s' k = Some a \<and> item_mapping s' q = Some b \<longrightarrow>
            a < length M \<and> b < length (M ! a) \<and>
            M ! a ! b = pair_weight (interactions ?w) k q) \<and>
         (\<forall>a<length M. \<forall>b<length (M ! a). \<exists>k q.
            user_mapping s' k = Some a \<and> item_mapping s' q = Some b)"
    using t by (elim conjE)
  then obtain M s' where
    r: "prepare_interaction_data ?w init_service = (Some M, ?w, s')"
    and c: "\<forall>k q a b. user_mapping s' k = Some a \<and> item_mapping s' q = Some b \<longrightarrow>
            a < length M \<and> b < length (M ! a) \<and> M ! a ! b = pair_weight (interactions ?w) k q"
    by (elim exE conjE)
  have e: "fst (prepare_interaction_data ?w init_service) = Some [[6]]"
    "user_mapping (snd (snd (prepare_interaction_data ?w init_service))) ''s1'' = Some 0"
    "item_mapping (snd (snd (prepare_interaction_data ?w init_service))) 1 = Some 0"
    by (simp_all add: prepare_interaction_data_def groupby_sum_def pd_unique_def dict_of_def
          get_interaction_weight_def zeros_def set_cell_def interaction_row_def
          enumerate_eq_zip Let_def)
  have m: "M = [[6]]" and um: "user_mapping s' ''s1'' = Some 0" and im: "item_mapping s' 1 = Some 0"
    using e unfolding r by simp_all
  have "M ! 0 ! 0 = pair_weight (interactions ?w) ''s1'' 1"
    using c um im by blast
  then have "M ! 0 ! 0 = 6"
    by (simp add: pair_weight_def interaction_row_def get_interaction_weight_def)
  with m r show ?thesis by simp
qed

section \<open>Properties of train_model\<close>

lemma prepare_interaction_data_empty:
  "interactions w = [] \<Longrightarrow>
   prepare_interaction_data w s = (None, log_line WARNING ''No user interactions found'' w, s)"
  by (simp add: prepare_interaction_data_def)

lemma train_model_empty:
  assumes "interactions w = []"
  shows "train_model featurize w s =
     (False,
      log_line WARNING ''No interaction data available for training''
        (log_line WARNING ''No user interactions found''
           (log_line INFO ''Training recommendation model...'' w)),
      s\<lparr>user_item_matrix := None\<rparr>)"
proof -
  have "interactions (log_line INFO ''Training recommendation model...'' w) = []"
    using assms by (simp add: log_line_def)
  then show ?thesis
    by (simp add: train_model_def prepare_interaction_data_empty)
qed

lemma train_model_nonempty:
  assumes "interactions w \<noteq> []"
  shows "\<exists>M um im rum rim features w'.
     train_model featurize w s =
       (True, w',
        s\<lparr>user_mapping := um, item_mapping := im, reverse_user_mapping := rum,
           reverse_item_mapping := rim, user_item_matrix := Some M,
           user_similarity_matrix := Some (compute_cosine_similarity_matrix M),
           item_similarity_matrix := Some (compute_item_similarity_matrix M),
           content_features := features, is_trained := True\<rparr>) \<and>
     prepare_interaction_data (log_line INFO ''Training recommendation model...'' w) s =
       (Some M, log_line INFO ''Training recommendation model...'' w,
        s\<lparr>user_mapping := um, item_mapping := im, reverse_user_mapping := rum,
           reverse_item_mapping := rim\<rparr>) \<and>
     products w' = products w \<and> interactions w' = interactions w \<and>
     train_runs w' = train_runs w + 1 \<and>
     (\<forall>k a. um k = Some a \<longleftrightarrow> rum a = Some k) \<and>
     (\<forall>q b. im q = Some b \<longleftrightarrow> rim b = Some q) \<and>
     (\<forall>k q a b. um k = Some a \<and> im q = Some b \<longrightarrow>
        a < length M \<and> b < length (M ! a) \<and> M ! a ! b = pair_weight (interactions w) k q)"
proof -
  let ?w0 = "log_line INFO ''Training recommendation model...'' w"
  have ne: "interactions ?w0 \<noteq> []" using assms by (simp add: log_line_def)
  from prepare_interaction_data_cells[OF ne, of s] obtain M um im rum rim where
    r: "prepare_interaction_data ?w0 s =
          (Some M, ?w0, s\<lparr>user_mapping := um, item_mapping := im,
                         reverse_user_mapping := rum, reverse_item_mapping := rim\<rparr>)"
    and c1: "\<forall>k a. um k = Some a \<longleftrightarrow> rum a = Some k"
    and c2: "\<forall>q b. im q = Some b \<longleftrightarrow> rim b = Some q"
    and c3: "\<forall>k q a b. um k = Some a \<and> im q = Some b \<longrightarrow>
        a < length M \<and> b < length (M ! a) \<and> M ! a ! b = pair_weight (interactions ?w0) k q"
    by (elim exE conjE)
  have c3': "\<forall>k q a b. um k = Some a \<and> im q = Some b \<longrightarrow>
        a < length M \<and> b < length (M ! a) \<and> M ! a ! b = pair_weight (interactions w) k q"
    using c3 by (simp add: log_line_def)
  let ?w3 = "log_line INFO ''Computing item similarity matrix...''
               (log_line INFO ''Computing user similarity matrix...'' ?w0)"
  obtain features w4 where pc: "prepare_content_features featurize ?w3 = (features, w4)"
    by (cases "prepare_content_features featurize ?w3")
  have w4: "products w4 = products w" "interactions w4 = interactions w"
    "train_runs w4 = train_runs w + 1"
    using pc
    by (auto simp: prepare_content_features_def Let_def log_line_def train_runs_def
             split: if_splits option.splits)
  let ?w' = "log_line INFO ''Model training completed successfully'' w4"
  have t: "train_model featurize w s =
       (True, ?w',
        s\<lparr>user_mapping := um, item_mapping := im, reverse_user_mapping := rum,
           reverse_item_mapping := rim, user_item_matrix := Some M,
           user_similarity_matrix := Some (compute_cosine_similarity_matrix M),
           item_similarity_matrix := Some (compute_item_similarity_matrix M),
           content_features := features, is_trained := True\<rparr>)"
    by (simp add: train_model_def r pc Let_def)
  have w': "products ?w' = products w" "interactions ?w' = interactions w"
    "train_runs ?w' = train_runs w + 1"
    using w4 by (simp_all add: log_line_def train_runs_def)
  show ?thesis
    apply (rule exI[of _ M], rule exI[of _ um], rule exI[of _ im], rule exI[of _ rum],
           rule exI[of _ rim], rule exI[of _ features], rule exI[of _ ?w'])
    apply (intro conjI)
           apply (rule t)
          apply (rule r)
         apply (rule w'(1))
        apply (rule w'(2))
       apply (rule w'(3))
      apply (rule c1)
     apply (rule c2)
    apply (rule c3')
    done
qed

text \<open>
  Claim C4, as amended. train_model assigns the fields of the service one after another;
  there is no swap of a complete state. It returns failure exactly when the interaction
  table is empty. When it returns failure, both similarity matrices, the four mappings,
  the content features and the trained flag are left as they were. When it returns
  success, the new state is complete: it holds an interaction matrix, the two similarity
  matrices computed from that matrix, the trained flag, and mappings of the same pass
  (each reverse mapping inverts its mapping, and the cell of a mapped session and product
  is the aggregated weight of that pair).
\<close>

theorem train_model_in_place:
  assumes "train_model featurize w s = (ok, w', s')"
  shows "(ok \<longleftrightarrow> interactions w \<noteq> []) \<and>
     (\<not> ok \<longrightarrow>
        user_similarity_matrix s' = user_similarity_matrix s \<and>
        item_similarity_matrix s' = item_similarity_matrix s \<and>
        user_mapping s' = user_mapping s \<and> item_mapping s' = item_mapping s \<and>
        reverse_user_mapping s' = reverse_user_mapping s \<and>
        reverse_item_mapping s' = reverse_item_mapping s \<and>
        content_features s' = content_features s \<and> is_trained s' = is_trained s) \<and>
     (ok \<longrightarrow>
        (\<exists>M. user_item_matrix s' = Some M \<and>
           user_similarity_matrix s' = Some (compute_cosine_similarity_matrix M) \<and>
           item_similarity_matrix s' = Some (compute_item_similarity_matrix M) \<and>
           is_trained s' \<and>
           (\<forall>k a. user_mapping s' k = Some a \<longleftrightarrow> reverse_user_mapping s' a = Some k) \<and>
           (\<forall>q b. item_mapping s' q = Some b \<longleftrightarrow> reverse_item_mapping s' b = Some q) \<and>
           (\<forall>k q a b. user_mapping s' k = Some a \<and> item_mapping s' q = Some b \<longrightarrow>
              a < length M \<and> b < length (M ! a) \<and>
              M ! a ! b = pair_weight (interactions w) k q)))"
proof (cases "interactions w = []")
  case True
  from train_model_empty[OF True, of featurize s] assms
  have "ok = False" "s' = s\<lparr>user_item_matrix := None\<rparr>" by simp_all
  then show ?thesis using True by simp
next
  case False
  from train_model_nonempty[OF False, of featurize s] obtain M um im rum rim features w'' where
    t: "train_model featurize w s =
       (True, w'',
        s\<lparr>user_mapping := um, item_mapping := im, reverse_user_mapping := rum,
           reverse_item_mapping := rim, user_item_matrix := Some M,
           user_similarity_matrix := Some (compute_cosine_similarity_matrix M),
           item_similarity_matrix := Some (compute_item_similarity_matrix M),
           content_features := features, is_trained := True\<rparr>)"
    and c1: "\<forall>k a. um k = Some a \<longleftrightarrow> rum a = Some k"
    and c2: "\<forall>q b. im q = Some b \<longleftrightarrow> rim b = Some q"
    and c3: "\<forall>k q a b. um k = Some a \<and> im q = Some b \<longrightarrow>
        a < length M \<and> b < length (M ! a) \<and> M ! a ! b = pair_weight (interactions w) k q"
    by (elim exE conjE)
  from t assms have ok: "ok = True"
    and s': "s' = s\<lparr>user_mapping := um, item_mapping := im, reverse_user_mapping := rum,
           reverse_item_mapping := rim, user_item_matrix := Some M,
           user_similarity_matrix := Some (compute_cosine_similarity_matrix M),
           item_similarity_matrix := Some (compute_item_similarity_matrix M),
           content_features := features, is_trained := True\<rparr>"
    by simp_all
  have "\<exists>M. user_item_matrix s' = Some M \<and>
           user_similarity_matrix s' = Some (compute_cosine_similarity_matrix M) \<and>
           item_similarity_matrix s' = Some (compute_item_similarity_matrix M) \<and>
           is_trained s' \<and>
           (\<forall>k a. user_mapping s' k = Some a \<longleftrightarrow> reverse_user_mapping s' a = Some k) \<and>
           (\<forall>q b. item_mapping s' q = Some b \<longleftrightarrow> reverse_item_mapping s' b = Some q) \<and>
           (\<forall>k q a b. user_mapping s' k = Some a \<and> item_mapping s' q = Some b \<longrightarrow>
              a < length M \<and> b < length (M ! a) \<and>
              M ! a ! b = pair_weight (interactions w) k q)"
  proof -
    have sel: "user_item_matrix s' = Some M"
      "user_similarity_matrix s' = Some (compute_cosine_similarity_matrix M)"
      "item_similarity_matrix s' = Some (compute_item_similarity_matrix M)"
      "is_trained s'" "user_mapping s' = um" "item_mapping s' = im"
      "reverse_user_mapping s' = rum" "reverse_item_mapping s' = rim"
      by (simp_all add: s')
    show ?thesis
      unfolding sel(5-8)
      apply (rule exI[of _ M])
      apply (intro conjI)
            apply (rule sel(1))
           apply (rule sel(2))
          apply (rule sel(3))
         apply (rule sel(4))
        apply (rule c1)
       apply (rule c2)
      apply (rule c3)
      done
  qed
  then show ?thesis using ok False by simp
qed

text \<open>
  Claim C4 as stated asks that a failed train leaves the whole trained state unchanged.
  The service below is the state after a first training run on a single view. A second
  run on an empty interaction table returns failure and has already replaced the
  interaction matrix by \<open>None\<close>, while the trained flag and the old similarity matrix
  stay: a mix of the two states.
\<close>

theorem train_model_failure_clears_matrix_counterexample:
  "snd (snd (train_model (\<lambda>ps. None)
       \<lparr>products = [], interactions = [interaction_row ''s1'' 1 ''view'' 0], logged = []\<rparr>
       init_service)) = trained_once \<and>
   fst (train_model (\<lambda>ps. None) \<lparr>products = [], interactions = [], logged = []\<rparr> trained_once)
     = False \<and>
   user_item_matrix trained_once = Some [[1]] \<and>
   user_item_matrix (snd (snd (train_model (\<lambda>ps. None)
       \<lparr>products = [], interactions = [], logged = []\<rparr> trained_once))) = None \<and>
   user_similarity_matrix (snd (snd (train_model (\<lambda>ps. None)
       \<lparr>products = [], interactions = [], logged = []\<rparr> trained_once))) = Some [[1]] \<and>
   is_trained (snd (snd (train_model (\<lambda>ps. None)
       \<lparr>products = [], interactions = [], logged = []\<rparr> trained_once)))"
proof -
  have "snd (snd (train_model (\<lambda>ps. None)
       \<lparr>products = [], interactions = [interaction_row ''s1'' 1 ''view'' 0], logged = []\<rparr>
       init_service)) = trained_once"
    by (simp add: prepare_interaction_data_def groupby_sum_def pd_unique_def dict_of_def
          get_interaction_weight_def zeros_def set_cell_def interaction_row_def
          enumerate_eq_zip Let_def train_model_def log_line_def
          compute_cosine_similarity_matrix_def compute_item_similarity_matrix_def
          similarity_loops_def norms_of_def norm_of_def dot_def similarity_step_def ncols_def
          prepare_content_features_def init_service_def trained_once_def)
  then show ?thesis
    by (simp add: train_model_def prepare_interaction_data_def log_line_def trained_once_def)
qed

theorem train_model_in_place_witness:
  "train_model (\<lambda>ps. None) \<lparr>products = [], interactions = [], logged = []\<rparr> trained_once =
     (False,
      \<lparr>products = [], interactions = [],
       logged = [(INFO, ''Training recommendation model...''),
                 (WARNING, ''No user interactions found''),
                 (WARNING, ''No interaction data available for training'')]\<rparr>,
      trained_once\<lparr>user_item_matrix := None\<rparr>) \<and>
   user_similarity_matrix (trained_once\<lparr>user_item_matrix := None\<rparr>) =
     user_similarity_matrix trained_once \<and>
   is_trained (trained_once\<lparr>user_item_matrix := None\<rparr>) = is_trained trained_once"
proof -
  have h: "train_model (\<lambda>ps. None) \<lparr>products = [], interactions = [], logged = []\<rparr> trained_once =
     (False,
      \<lparr>products = [], interactions = [],
       logged = [(INFO, ''Training recommendation model...''),
                 (WARNING, ''No user interactions found''),
                 (WARNING, ''No interaction data available for training'')]\<rparr>,
      trained_once\<lparr>user_item_matrix := None\<rparr>)"
    by (simp add: train_model_def prepare_interaction_data_def log_line_def)
  from train_model_in_place[OF h] h show ?thesis by blast
qed

section \<open>Properties of record_interaction\<close>

lemma same_interaction_refresh [simp]:
  "same_interaction session pid kind (e\<lparr>timestamp := t\<rparr>) = same_interaction session pid kind e"
  by (simp add: same_interaction_def)

lemma filter_same_upserted:
  assumes "length (filter (same_interaction session pid kind) events) \<le> 1"
  shows "length (filter (same_interaction session pid kind) (upserted session pid kind t events)) = 1"
proof (cases "\<exists>e\<in>set events. same_interaction session pid kind e")
  case True
  then have "filter (same_interaction session pid kind) events \<noteq> []"
    by (simp add: filter_empty_conv)
  then have l: "length (filter (same_interaction session pid kind) events) = 1"
    using assms by (cases "filter (same_interaction session pid kind) events") simp_all
  have "length (filter (same_interaction session pid kind)
          (map (\<lambda>e. if same_interaction session pid kind e then e\<lparr>timestamp := t\<rparr> else e) events))
        = length (filter (same_interaction session pid kind) events)"
    by (induction events) simp_all
  then show ?thesis using True l by (simp add: upserted_def)
next
  case False
  then have "filter (same_interaction session pid kind) events = []"
    by (simp add: filter_empty_conv)
  then show ?thesis using False by (simp add: upserted_def same_interaction_def)
qed

lemma record_interaction_eq:
  assumes p: "get_product w pid = Some p" and n: "now = Inr t"
    and u: "length (filter (same_interaction session pid kind) (interactions w)) \<le> 1"
  shows "record_interaction featurize now w s session pid kind =
     (let w2 = w\<lparr>interactions := upserted session pid kind t (interactions w)\<rparr>
      in if length (interactions w2) mod 50 = 0
         then (True, snd (train_model featurize w2 s))
         else (True, w2, s))"
proof (cases "filter (same_interaction session pid kind) (interactions w)")
  case Nil
  then have no: "\<not> (\<exists>e\<in>set (interactions w). same_interaction session pid kind e)"
    by (simp add: filter_empty_conv)
  show ?thesis
    by (simp add: record_interaction_def p n get_or_create_def Nil upserted_def no Let_def
          split: prod.splits)
next
  case (Cons e es)
  then have es: "es = []" using u by simp
  have yes: "\<exists>e\<in>set (interactions w). same_interaction session pid kind e"
  proof -
    have "e \<in> set (filter (same_interaction session pid kind) (interactions w))"
      using Cons by simp
    then show ?thesis by auto
  qed
  show ?thesis
    by (simp add: record_interaction_def p n get_or_create_def Cons es upserted_def yes Let_def
          refresh_timestamp_def split: prod.splits)
qed

lemma record_interaction_no_product:
  "get_product w pid = None \<Longrightarrow>
   record_interaction featurize now w s session pid kind =
     (False, log_line ERROR ''Product with id does not exist'' w, s)"
  by (simp add: record_interaction_def)


lemma train_model_world:
  "products (fst (snd (train_model featurize w s))) = products w \<and>
   interactions (fst (snd (train_model featurize w s))) = interactions w \<and>
   train_runs (fst (snd (train_model featurize w s))) = train_runs w + 1"
proof (cases "interactions w = []")
  case True
  show ?thesis
    unfolding train_model_empty[OF True] by (simp add: log_line_def train_runs_def)
next
  case False
  from train_model_nonempty[OF False, of featurize s] obtain w' st where
    "train_model featurize w s = (True, w', st)"
    "products w' = products w" "interactions w' = interactions w"
    "train_runs w' = train_runs w + 1"
    by (elim exE conjE)
  then show ?thesis by simp
qed

lemma upserted_has_row:
  "\<exists>e\<in>set (upserted session pid kind t events). same_interaction session pid kind e"
proof (cases "\<exists>e\<in>set events. same_interaction session pid kind e")
  case True
  then obtain e where e: "e \<in> set events" "same_interaction session pid kind e" by blast
  let ?f = "\<lambda>e. if same_interaction session pid kind e then e\<lparr>timestamp := t\<rparr> else e"
  have "?f e \<in> set (map ?f events)" using e(1) by simp
  moreover have "same_interaction session pid kind (?f e)" using e(2) by simp
  ultimately have "\<exists>e'\<in>set (map ?f events). same_interaction session pid kind e'" by blast
  then show ?thesis using True by (simp only: upserted_def if_True)
next
  case False
  have "same_interaction session pid kind
          \<lparr>session_key = session, product_id = pid, interaction_type = kind, timestamp = t\<rparr>"
    by (simp add: same_interaction_def)
  then have "\<exists>e\<in>set (events @ [\<lparr>session_key = session, product_id = pid,
                                    interaction_type = kind, timestamp = t\<rparr>]).
               same_interaction session pid kind e"
    by simp
  then show ?thesis using False by (simp only: upserted_def if_False)
qed

text \<open>
  What the body of record_interaction does when the clock read returns a timestamp \<open>t\<close>
  and the table holds at most one row of the given (session, product, type): failure
  exactly when the product is missing; otherwise an upsert (a new row, or the timestamp of
  the existing row refreshed) and success.
\<close>

lemma record_interaction_upsert_with_clock:
  assumes "now = Inr t"
    and "length (filter (same_interaction session pid kind) (interactions w)) \<le> 1"
    and "record_interaction featurize now w s session pid kind = (ok, w', s')"
  shows "(\<not> ok \<longleftrightarrow> get_product w pid = None) \<and>
     (get_product w pid = None \<longrightarrow> interactions w' = interactions w) \<and>
     (get_product w pid \<noteq> None \<longrightarrow>
        (if \<exists>e\<in>set (interactions w). same_interaction session pid kind e
         then interactions w' =
                map (\<lambda>e. if same_interaction session pid kind e then e\<lparr>timestamp := t\<rparr> else e)
                    (interactions w)
         else interactions w' =
                interactions w @ [\<lparr>session_key = session, product_id = pid,
                                    interaction_type = kind, timestamp = t\<rparr>]) \<and>
        length (filter (same_interaction session pid kind) (interactions w')) = 1)"
proof (cases "get_product w pid")
  case None
  from record_interaction_no_product[OF None, of featurize now s session kind] assms(3)
  have "ok = False" "w' = log_line ERROR ''Product with id does not exist'' w" by simp_all
  then show ?thesis using None by (simp add: log_line_def)
next
  case (Some p)
  let ?w2 = "w\<lparr>interactions := upserted session pid kind t (interactions w)\<rparr>"
  have r: "(ok, w', s') =
     (if length (interactions ?w2) mod 50 = 0 then (True, snd (train_model featurize ?w2 s))
      else (True, ?w2, s))"
    using record_interaction_eq[OF Some assms(1,2), of featurize s] assms(3)
    by (simp add: Let_def)
  have ok: "ok" using r by (simp split: if_splits)
  have i: "interactions w' = upserted session pid kind t (interactions w)"
  proof (cases "length (interactions ?w2) mod 50 = 0")
    case True
    then have "w' = fst (snd (train_model featurize ?w2 s))" using r by (simp add: prod_eq_iff)
    then show ?thesis using train_model_world[of featurize ?w2 s] by simp
  next
    case False
    then show ?thesis using r by simp
  qed
  have l: "length (filter (same_interaction session pid kind) (interactions w')) = 1"
    unfolding i using assms(2) by (rule filter_same_upserted)
  show ?thesis using ok Some l by (simp add: i upserted_def)
qed

text \<open>
  Under the same two conditions and for an existing product, the upsert comes first and
  train_model is run, on the world that holds the row, exactly when the number of rows is
  then a multiple of 50.
\<close>

lemma record_interaction_retrain_with_clock:
  assumes "get_product w pid = Some p" and "now = Inr t"
    and "length (filter (same_interaction session pid kind) (interactions w)) \<le> 1"
    and "record_interaction featurize now w s session pid kind = (ok, w', s')"
  shows "ok \<and>
     (\<exists>w2. products w2 = products w \<and> logged w2 = logged w \<and>
           interactions w2 = interactions w' \<and>
           (\<exists>e\<in>set (interactions w2). same_interaction session pid kind e) \<and>
           (if length (interactions w2) mod 50 = 0
            then (w', s') = snd (train_model featurize w2 s)
            else (w', s') = (w2, s))) \<and>
     train_runs w' = train_runs w + (if length (interactions w') mod 50 = 0 then 1 else 0)"
proof -
  let ?w2 = "w\<lparr>interactions := upserted session pid kind t (interactions w)\<rparr>"
  have r: "(ok, w', s') =
     (if length (interactions ?w2) mod 50 = 0 then (True, snd (train_model featurize ?w2 s))
      else (True, ?w2, s))"
    using record_interaction_eq[OF assms(1,2,3), of featurize s] assms(4)
    by (simp add: Let_def)
  have ok: "ok" using r by (simp split: if_splits)
  have br: "if length (interactions ?w2) mod 50 = 0
            then (w', s') = snd (train_model featurize ?w2 s)
            else (w', s') = (?w2, s)"
    using r by (simp split: if_splits)
  have i: "interactions ?w2 = interactions w'"
  proof (cases "length (interactions ?w2) mod 50 = 0")
    case True
    then have "w' = fst (snd (train_model featurize ?w2 s))" using br by (simp add: prod_eq_iff)
    then show ?thesis using train_model_world[of featurize ?w2 s] by simp
  next
    case False
    then show ?thesis using br by simp
  qed
  have row: "\<exists>e\<in>set (interactions ?w2). same_interaction session pid kind e"
    using upserted_has_row[of session pid kind t "interactions w"] by simp
  have runs: "train_runs w' = train_runs w + (if length (interactions w') mod 50 = 0 then 1 else 0)"
  proof (cases "length (interactions ?w2) mod 50 = 0")
    case True
    then have "w' = fst (snd (train_model featurize ?w2 s))" using br by (simp add: prod_eq_iff)
    then have "train_runs w' = train_runs ?w2 + 1"
      using train_model_world[of featurize ?w2 s] by simp
    moreover have "train_runs ?w2 = train_runs w" by (simp add: train_runs_def)
    ultimately show ?thesis using True i by simp
  next
    case False
    then have "w' = ?w2" using br by simp
    then have "train_runs w' = train_runs w" by (simp add: train_runs_def)
    then show ?thesis using False i by simp
  qed
  have "\<exists>w2. products w2 = products w \<and> logged w2 = logged w \<and>
           interactions w2 = interactions w' \<and>
           (\<exists>e\<in>set (interactions w2). same_interaction session pid kind e) \<and>
           (if length (interactions w2) mod 50 = 0
            then (w', s') = snd (train_model featurize w2 s)
            else (w', s') = (w2, s))"
    apply (rule exI[of _ ?w2])
    apply (intro conjI)
        apply simp
       apply simp
      apply (rule i)
     apply (rule row)
    apply (rule br)
    done
  with ok runs show ?thesis by blast
qed

text \<open>
  In the code the clock read never returns: \<open>models_timezone_now\<close> is an AttributeError,
  raised while the arguments of \<open>get_or_create\<close> are built, before any row is read or
  written. The call ends in one of the two handlers.
\<close>

lemma record_interaction_attribute_error:
  "record_interaction featurize models_timezone_now w s session pid kind =
     (False,
      log_line ERROR (if get_product w pid = None then ''Product with id does not exist''
                      else ''Error recording interaction'') w,
      s)"
  by (cases "get_product w pid") (simp_all add: record_interaction_def models_timezone_now_def)


text \<open>
  Claim C7 says that record_interaction fails exactly when no product with the given id
  exists, and upserts the event and succeeds otherwise. The code reads the clock through
  \<open>models.timezone\<close>, which does not exist: record_interaction returns failure for every
  product id, also that of an existing product, and the interaction table is left as it
  was (no row is created, no timestamp refreshed).
\<close>

theorem record_interaction_fails_for_every_product:
  "fst (record_interaction featurize models_timezone_now w s session pid kind) = False \<and>
   interactions (fst (snd (record_interaction featurize models_timezone_now w s session pid kind)))
     = interactions w \<and>
   products (fst (snd (record_interaction featurize models_timezone_now w s session pid kind)))
     = products w"
  unfolding record_interaction_attribute_error by (simp add: log_line_def)

theorem record_interaction_fails_for_every_product_witness:
  "get_product \<lparr>products = [product_row 1 7 True], interactions = [], logged = []\<rparr> 1 =
     Some (product_row 1 7 True) \<and>
   record_interaction (\<lambda>ps. None) models_timezone_now
      \<lparr>products = [product_row 1 7 True], interactions = [], logged = []\<rparr>
      init_service ''s1'' 1 ''view'' =
     (False,
      \<lparr>products = [product_row 1 7 True], interactions = [],
       logged = [(ERROR, ''Error recording interaction'')]\<rparr>,
      init_service)"
proof -
  let ?w = "\<lparr>products = [product_row 1 7 True], interactions = [], logged = []\<rparr>"
  have p: "get_product ?w 1 = Some (product_row 1 7 True)"
    by (simp add: get_product_def product_row_def)
  have e: "record_interaction (\<lambda>ps. None) models_timezone_now ?w init_service ''s1'' 1 ''view'' =
     (False, ?w\<lparr>logged := [(ERROR, ''Error recording interaction'')]\<rparr>, init_service)"
    by (simp add: record_interaction_attribute_error p log_line_def)
  from record_interaction_fails_for_every_product[of "\<lambda>ps. None" ?w init_service "''s1''" 1 "''view''"]
  have "fst (record_interaction (\<lambda>ps. None) models_timezone_now ?w init_service ''s1'' 1 ''view'')
          = False"
    by blast
  with p e show ?thesis by simp
qed



section \<open>Properties of get_user_recommendations\<close>

lemma train_if_untrained_world:
  assumes "train_if_untrained featurize w s = (w1, s1)"
  shows "products w1 = products w" "interactions w1 = interactions w"
proof -
  have "w1 = (if \<not> is_trained s then fst (snd (train_model featurize w s)) else w)"
    using assms by (auto simp: train_if_untrained_def split: prod.splits if_splits)
  then show "products w1 = products w" "interactions w1 = interactions w"
    using train_model_world[of featurize w s] by (simp_all split: if_splits)
qed

lemma get_popular_recommendations_cong:
  "products w1 = products w \<Longrightarrow> interactions w1 = interactions w \<Longrightarrow>
   get_popular_recommendations w1 n = get_popular_recommendations w n"
proof -
  assume a: "products w1 = products w" "interactions w1 = interactions w"
  then have "interaction_count w1 = interaction_count w"
    by (simp add: interaction_count_def fun_eq_iff)
  then show ?thesis using a by (simp add: get_popular_recommendations_def)
qed

lemma set_order_by_desc: "set (order_by_desc f xs) = set xs"
  by (simp add: order_by_desc_def)

lemma length_order_by_desc: "length (order_by_desc f xs) = length xs"
  by (simp add: order_by_desc_def)

lemma distinct_order_by_desc: "distinct xs \<Longrightarrow> distinct (order_by_desc f xs)"
  by (simp add: order_by_desc_def)

lemma order_by_desc_sorted: "sorted_wrt (\<lambda>a b. f b \<le> f a) (order_by_desc f xs)"
proof -
  have "sorted (map f (sort_key f (rev xs)))" by simp
  then have "sorted_wrt (\<lambda>a b. f a \<le> f b) (sort_key f (rev xs))"
    by (simp add: sorted_wrt_map)
  then show ?thesis by (simp add: order_by_desc_def sorted_wrt_rev)
qed

lemma popular_properties:
  fixes w n
  defines "active \<equiv> filter is_active (products w)"
  defines "recs \<equiv> get_popular_recommendations w n"
  shows "length recs = min n (length active)"
    and "\<forall>r\<in>set recs. score r = 1 \<and> reason r = ''popularity'' \<and>
            rec_product r \<in> set (products w) \<and> is_active (rec_product r)"
    and "sorted_wrt (\<lambda>a b. interaction_count w (rec_product b) \<le> interaction_count w (rec_product a)) recs"
    and "\<forall>p\<in>set active. p \<notin> rec_product ` set recs \<longrightarrow>
            length recs = n \<and>
            (\<forall>r\<in>set recs. interaction_count w p \<le> interaction_count w (rec_product r))"
    and "distinct (products w) \<longrightarrow> distinct (map rec_product recs)"
proof -
  define srt where "srt = order_by_desc (interaction_count w) active"
  define top where "top = take n srt"
  have recs: "recs = map (\<lambda>p. \<lparr>rec_product = p, score = 1, reason = ''popularity''\<rparr>) top"
    by (simp add: recs_def get_popular_recommendations_def top_def srt_def active_def)
  have prods: "map rec_product recs = top" by (simp add: recs comp_def)
  have set_srt: "set srt = set active" by (simp add: srt_def set_order_by_desc)
  have top_sub: "set top \<subseteq> set active"
    using set_take_subset[of n srt] set_srt by (simp add: top_def)
  show "length recs = min n (length active)"
    by (simp add: recs top_def srt_def length_order_by_desc min.commute)
  show "\<forall>r\<in>set recs. score r = 1 \<and> reason r = ''popularity'' \<and>
            rec_product r \<in> set (products w) \<and> is_active (rec_product r)"
    using top_sub by (auto simp: recs active_def)
  have desc: "sorted_wrt (\<lambda>a b. interaction_count w b \<le> interaction_count w a) srt"
    unfolding srt_def by (rule order_by_desc_sorted)
  then have "sorted_wrt (\<lambda>a b. interaction_count w b \<le> interaction_count w a) top"
    unfolding top_def by (rule sorted_wrt_take)
  then show "sorted_wrt (\<lambda>a b. interaction_count w (rec_product b) \<le>
                              interaction_count w (rec_product a)) recs"
    by (simp add: recs sorted_wrt_map)
  show "\<forall>p\<in>set active. p \<notin> rec_product ` set recs \<longrightarrow>
            length recs = n \<and>
            (\<forall>r\<in>set recs. interaction_count w p \<le> interaction_count w (rec_product r))"
  proof (intro ballI impI)
    fix p assume p: "p \<in> set active" "p \<notin> rec_product ` set recs"
    have "rec_product ` set recs = set top" using prods by (metis set_map)
    then have "p \<notin> set top" using p(2) by simp
    moreover have "p \<in> set srt" using p(1) set_srt by simp
    ultimately have in_drop: "p \<in> set (drop n srt)"
      unfolding top_def by (metis Un_iff append_take_drop_id set_append)
    then have "drop n srt \<noteq> []" by auto
    then have "n < length srt" by simp
    then have l: "length recs = n" by (simp add: recs top_def)
    have "sorted_wrt (\<lambda>a b. interaction_count w b \<le> interaction_count w a)
            (take n srt @ drop n srt)"
      using desc by simp
    then have "\<forall>q\<in>set top. interaction_count w p \<le> interaction_count w q"
      using in_drop unfolding sorted_wrt_append top_def by blast
    then have "\<forall>r\<in>set recs. interaction_count w p \<le> interaction_count w (rec_product r)"
      by (simp add: recs)
    with l show "length recs = n \<and>
            (\<forall>r\<in>set recs. interaction_count w p \<le> interaction_count w (rec_product r))"
      by blast
  qed
  show "distinct (products w) \<longrightarrow> distinct (map rec_product recs)"
  proof
    assume "distinct (products w)"
    then have "distinct srt" unfolding srt_def active_def
      by (intro distinct_order_by_desc distinct_filter)
    then show "distinct (map rec_product recs)" unfolding prods top_def by (rule distinct_take)
  qed
qed

text \<open>
  Claim C8. Let \<open>s1\<close> be the service state after the training attempt that
  get_user_recommendations makes when the model is untrained. If \<open>s1\<close> is still untrained
  or the session is not in its session mapping, the result is the popularity list: it has
  \<open>n\<close> entries (all active products when there are fewer than \<open>n\<close>), each an active
  product with score \<open>1\<close> and reason ``popularity'', in descending order of the number of
  interaction rows of any type; an active product is left out only when the list is full
  and every listed product has at least as many interactions. With distinct product rows
  no product is listed twice.
\<close>

theorem get_user_recommendations_popularity_fallback:
  assumes "train_if_untrained featurize w s = (w1, s1)"
    and "\<not> is_trained s1 \<or> user_mapping s1 session = None"
  shows "fst (get_user_recommendations featurize w s session n) = get_popular_recommendations w n \<and>
     length (get_popular_recommendations w n) = min n (length (filter is_active (products w))) \<and>
     (\<forall>r\<in>set (get_popular_recommendations w n).
        score r = 1 \<and> reason r = ''popularity'' \<and>
        rec_product r \<in> set (products w) \<and> is_active (rec_product r)) \<and>
     sorted_wrt (\<lambda>a b. interaction_count w (rec_product b) \<le> interaction_count w (rec_product a))
       (get_popular_recommendations w n) \<and>
     (\<forall>p\<in>set (filter is_active (products w)).
        p \<notin> rec_product ` set (get_popular_recommendations w n) \<longrightarrow>
        length (get_popular_recommendations w n) = n \<and>
        (\<forall>r\<in>set (get_popular_recommendations w n).
           interaction_count w p \<le> interaction_count w (rec_product r))) \<and>
     (distinct (products w) \<longrightarrow> distinct (map rec_product (get_popular_recommendations w n)))"
proof -
  have "fst (get_user_recommendations featurize w s session n) = get_popular_recommendations w1 n"
    using assms by (simp add: get_user_recommendations_def)
  also have "\<dots> = get_popular_recommendations w n"
    using train_if_untrained_world[OF assms(1)] by (rule get_popular_recommendations_cong)
  finally have a: "fst (get_user_recommendations featurize w s session n) =
                     get_popular_recommendations w n" .
  show ?thesis
    apply (intro conjI)
         apply (rule a)
        apply (rule popular_properties(1))
       apply (rule popular_properties(2))
      apply (rule popular_properties(3))
     apply (rule popular_properties(4))
    apply (rule popular_properties(5))
    done
qed


theorem get_user_recommendations_popularity_fallback_witness:
  "fst (get_user_recommendations (\<lambda>ps. None) small_shop trained_once ''zz'' 1) =
     [\<lparr>rec_product = product_row 2 7 True, score = 1, reason = ''popularity''\<rparr>] \<and>
   fst (get_user_recommendations (\<lambda>ps. None) (small_shop\<lparr>interactions := []\<rparr>) init_service ''s1'' 5) =
     [\<lparr>rec_product = product_row 1 7 True, score = 1, reason = ''popularity''\<rparr>,
      \<lparr>rec_product = product_row 2 7 True, score = 1, reason = ''popularity''\<rparr>]"
proof -
  have h1: "train_if_untrained (\<lambda>ps. None) small_shop trained_once = (small_shop, trained_once)"
    by (simp add: train_if_untrained_def trained_once_def)
  have h2: "\<not> is_trained trained_once \<or> user_mapping trained_once ''zz'' = None"
    by (simp add: trained_once_def)
  have a: "fst (get_user_recommendations (\<lambda>ps. None) small_shop trained_once ''zz'' 1) =
        get_popular_recommendations small_shop 1"
    using get_user_recommendations_popularity_fallback[OF h1 h2, of 1] by blast
  let ?w = "small_shop\<lparr>interactions := []\<rparr>"
  obtain w1 s1 where h3: "train_if_untrained (\<lambda>ps. None) ?w init_service = (w1, s1)"
    by (metis prod.exhaust)
  have "\<not> is_trained s1"
    using h3 by (auto simp: train_if_untrained_def init_service_def train_model_empty)
  then have h4: "\<not> is_trained s1 \<or> user_mapping s1 ''s1'' = None" by simp
  have b: "fst (get_user_recommendations (\<lambda>ps. None) ?w init_service ''s1'' 5) =
        get_popular_recommendations ?w 5"
    using get_user_recommendations_popularity_fallback[OF h3 h4, of 5] by blast
  have c: "get_popular_recommendations small_shop 1 =
      [\<lparr>rec_product = product_row 2 7 True, score = 1, reason = ''popularity''\<rparr>]"
    by (simp add: get_popular_recommendations_def small_shop_def order_by_desc_def
          interaction_count_def product_row_def interaction_row_def)
  have d: "get_popular_recommendations ?w 5 =
      [\<lparr>rec_product = product_row 1 7 True, score = 1, reason = ''popularity''\<rparr>,
       \<lparr>rec_product = product_row 2 7 True, score = 1, reason = ''popularity''\<rparr>]"
    by (simp add: get_popular_recommendations_def small_shop_def order_by_desc_def
          interaction_count_def product_row_def interaction_row_def)
  show ?thesis unfolding a b c d by simp
qed

section \<open>Properties of get_similar_products\<close>

lemma twin_trained:
  "train_model (\<lambda>ps. None) twin_views init_service =
     (True,
      twin_views\<lparr>logged := [(INFO, ''Training recommendation model...''),
                             (INFO, ''Computing user similarity matrix...''),
                             (INFO, ''Computing item similarity matrix...''),
                             (ERROR, ''Error preparing content features''),
                             (INFO, ''Model training completed successfully'')]\<rparr>,
      \<lparr>user_item_matrix = Some [[1, 1]], user_similarity_matrix = Some [[1]],
       item_similarity_matrix = Some [[1, 1], [1, 1]],
       user_mapping = [''s1'' \<mapsto> 0], item_mapping = [1 \<mapsto> 0, 2 \<mapsto> 1],
       reverse_user_mapping = [0 \<mapsto> ''s1''], reverse_item_mapping = [0 \<mapsto> 1, 1 \<mapsto> 2],
       content_features = None, is_trained = True\<rparr>)"
  by (simp add: prepare_interaction_data_def groupby_sum_def pd_unique_def dict_of_def
          get_interaction_weight_def zeros_def set_cell_def interaction_row_def product_row_def
          enumerate_eq_zip Let_def train_model_def log_line_def
          compute_cosine_similarity_matrix_def compute_item_similarity_matrix_def
          similarity_loops_def norms_of_def norm_of_def dot_def similarity_step_def ncols_def
          prepare_content_features_def init_service_def twin_views_def)

lemma get_active_product_Some:
  "get_active_product w pid = Some p \<Longrightarrow> p \<in> set (products w) \<and> product_pk p = pid \<and> is_active p"
  unfolding get_active_product_def by (auto simp: find_Some_iff)

lemma get_product_Some:
  "get_product w pid = Some p \<Longrightarrow> p \<in> set (products w) \<and> product_pk p = pid"
  unfolding get_product_def by (auto simp: find_Some_iff)

lemma similar_loop_entries:
  "similar_loop w rim sims idxs acc = Inr res \<Longrightarrow>
   length res \<le> length acc + length idxs \<and>
   (\<forall>r\<in>set res. r \<in> set acc \<or>
      (reason r = ''item_similarity'' \<and> score r > 0 \<and> is_active (rec_product r) \<and>
       rec_product r \<in> set (products w) \<and>
       (\<exists>idx\<in>set idxs. rim idx = Some (product_pk (rec_product r)) \<and> score r = sims ! idx)))"
proof (induction idxs arbitrary: acc)
  case Nil
  then show ?case by simp
next
  case (Cons idx idxs)
  show ?case
  proof (cases "sims ! idx > 0")
    case False
    then have "similar_loop w rim sims idxs acc = Inr res" using Cons.prems by simp
    from Cons.IH[OF this] show ?thesis by auto
  next
    case True
    then obtain pid where pid: "rim idx = Some pid"
      using Cons.prems by (cases "rim idx") simp_all
    show ?thesis
    proof (cases "get_active_product w pid")
      case None
      then have "similar_loop w rim sims idxs acc = Inr res"
        using Cons.prems True pid by simp
      from Cons.IH[OF this] show ?thesis by auto
    next
      case (Some p)
      let ?r = "\<lparr>rec_product = p, score = sims ! idx, reason = ''item_similarity''\<rparr>"
      have "similar_loop w rim sims idxs (acc @ [?r]) = Inr res"
        using Cons.prems True pid Some by simp
      from Cons.IH[OF this]
      have l: "length res \<le> length (acc @ [?r]) + length idxs"
        and e: "\<forall>r\<in>set res. r \<in> set (acc @ [?r]) \<or>
          (reason r = ''item_similarity'' \<and> score r > 0 \<and> is_active (rec_product r) \<and>
           rec_product r \<in> set (products w) \<and>
           (\<exists>idx\<in>set idxs. rim idx = Some (product_pk (rec_product r)) \<and> score r = sims ! idx))"
        by blast+
      have new: "reason ?r = ''item_similarity'' \<and> score ?r > 0 \<and> is_active (rec_product ?r) \<and>
           rec_product ?r \<in> set (products w) \<and>
           rim idx = Some (product_pk (rec_product ?r)) \<and> score ?r = sims ! idx"
        using True pid get_active_product_Some[OF Some] by simp
      have "\<forall>r\<in>set res. r \<in> set acc \<or>
          (reason r = ''item_similarity'' \<and> score r > 0 \<and> is_active (rec_product r) \<and>
           rec_product r \<in> set (products w) \<and>
           (\<exists>idx\<in>set (idx # idxs). rim idx = Some (product_pk (rec_product r)) \<and> score r = sims ! idx))"
      proof
        fix r assume "r \<in> set res"
        with e have "r \<in> set acc \<or> r = ?r \<or>
          (reason r = ''item_similarity'' \<and> score r > 0 \<and> is_active (rec_product r) \<and>
           rec_product r \<in> set (products w) \<and>
           (\<exists>idx\<in>set idxs. rim idx = Some (product_pk (rec_product r)) \<and> score r = sims ! idx))"
          by auto
        then show "r \<in> set acc \<or>
          (reason r = ''item_similarity'' \<and> score r > 0 \<and> is_active (rec_product r) \<and>
           rec_product r \<in> set (products w) \<and>
           (\<exists>idx\<in>set (idx # idxs). rim idx = Some (product_pk (rec_product r)) \<and> score r = sims ! idx))"
          using new by auto
      qed
      with l show ?thesis by simp
    qed
  qed
qed

lemma item_similarity_recommendations_entries:
  assumes "item_similarity_recommendations argsort w s pid n = Inr res"
  shows "length res \<le> n \<and>
     (\<forall>r\<in>set res. reason r = ''item_similarity'' \<and> score r > 0 \<and> is_active (rec_product r) \<and>
        rec_product r \<in> set (products w))"
proof -
  from assms obtain sims where
    "similar_loop w (reverse_item_mapping s) sims (take n (drop 1 (rev (argsort sims)))) [] = Inr res"
    by (auto simp: item_similarity_recommendations_def Let_def split: option.splits sum.splits)
  from similar_loop_entries[OF this] show ?thesis by auto
qed

lemma get_category_recommendations_entries:
  "length (fst (get_category_recommendations w pid n)) \<le> n \<and>
   (\<forall>r\<in>set (fst (get_category_recommendations w pid n)).
      reason r = ''same_category'' \<and> score r = 1 \<and> is_active (rec_product r) \<and>
      rec_product r \<in> set (products w) \<and> product_pk (rec_product r) \<noteq> pid \<and>
      (\<exists>p. get_product w pid = Some p \<and> category (rec_product r) = category p))"
proof (cases "get_product w pid")
  case None
  then show ?thesis by (simp add: get_category_recommendations_def)
next
  case (Some p)
  have "set (take n (filter (\<lambda>q. category q = category p \<and> is_active q \<and> product_pk q \<noteq> pid)
                 (products w)))
        \<subseteq> {q \<in> set (products w). category q = category p \<and> is_active q \<and> product_pk q \<noteq> pid}"
    using set_take_subset[of n "filter (\<lambda>q. category q = category p \<and> is_active q \<and> product_pk q \<noteq> pid)
                 (products w)"] by auto
  then show ?thesis using Some by (auto simp: get_category_recommendations_def)
qed


lemma is_argsort_stable: "is_argsort stable_argsort"
  unfolding is_argsort_def stable_argsort_def
  by (simp add: comp_def)

lemma argsort_pair:
  assumes "is_argsort argsort"
  shows "argsort [a, b] = [0, 1] \<or> argsort [a, b] = [1, 0]"
proof -
  have l: "length (argsort [a, b]) = 2" and s: "set (argsort [a, b]) = {0, 1}"
    using assms unfolding is_argsort_def by (auto simp: atLeastLessThan_def lessThan_def)
  from l obtain x y where xy: "argsort [a, b] = [x, y]"
    by (cases "argsort [a, b]"; cases "tl (argsort [a, b])") auto
  have "{x, y} = {0, 1}" using s unfolding xy by simp
  then have "(x = 0 \<and> y = 1) \<or> (x = 1 \<and> y = 0)" by (auto simp: doubleton_eq_iff)
  then show ?thesis unfolding xy by simp
qed

lemma twin_query:
  "get_similar_products (\<lambda>ps. None) argsort twin_views init_service pid n =
     (let s1 = snd (snd (train_model (\<lambda>ps. None) twin_views init_service));
          w1 = fst (snd (train_model (\<lambda>ps. None) twin_views init_service))
      in if item_mapping s1 pid = None
         then (case get_category_recommendations w1 pid n of (recs, w2) \<Rightarrow> (recs, w2, s1))
         else (case item_similarity_recommendations argsort w1 s1 pid n of
                  Inr similar_products \<Rightarrow> (similar_products, w1, s1)
                | Inl e \<Rightarrow>
                    (case get_category_recommendations
                            (log_line ERROR ''Error getting similar products'' w1) pid n of
                       (recs, w2) \<Rightarrow> (recs, w2, s1))))"
proof -
  have u: "\<not> is_trained init_service" by (simp add: init_service_def)
  have t: "train_if_untrained (\<lambda>ps. None) twin_views init_service =
     snd (train_model (\<lambda>ps. None) twin_views init_service)"
    using u by (simp add: train_if_untrained_def split: prod.splits)
  show ?thesis
    unfolding get_similar_products_def t by (simp add: twin_trained Let_def)
qed

lemma twin_query_first:
  assumes "argsort [1, 1] = [0, 1]"
  shows "map (\<lambda>r. (product_pk (rec_product r), score r, reason r))
       (fst (get_similar_products (\<lambda>ps. None) argsort twin_views init_service 1 5)) =
     [(1, 1, ''item_similarity'')]"
  unfolding twin_query twin_trained
  by (simp add: item_similarity_recommendations_def row_of_def subscriptable_def assms
        get_active_product_def twin_views_def product_row_def)

lemma twin_query_second:
  assumes "argsort [1, 1] = [1, 0]"
  shows "map (\<lambda>r. (product_pk (rec_product r), score r, reason r))
       (fst (get_similar_products (\<lambda>ps. None) argsort twin_views init_service 2 5)) =
     [(2, 1, ''item_similarity'')]"
  unfolding twin_query twin_trained
  by (simp add: item_similarity_recommendations_def row_of_def subscriptable_def assms
        get_active_product_def twin_views_def product_row_def)

text \<open>
  Claim C3 says that get_similar_products never returns the queried product. The
  category fallback keeps to it (\<open>get_category_recommendations_entries\<close>), and every
  entry of the collaborative path is an active product of positive similarity tagged
  ``item_similarity'', at most \<open>n\<close> of them (\<open>item_similarity_recommendations_entries\<close>).
  But the collaborative path excludes ``self'' by dropping the first index of the
  descending order, which is the queried item only when no other item ties with its
  similarity \<open>1.0\<close>. With two products viewed by the same single session the two columns
  are equal and all similarities are \<open>1.0\<close>. Whatever order argsort gives the two tied
  indices, one of the two products is returned for its own query: the index dropped is
  that of the other product.
\<close>

theorem get_similar_products_returns_queried_product:
  assumes "is_argsort argsort"
  shows "(\<exists>r\<in>set (fst (get_similar_products (\<lambda>ps. None) argsort twin_views init_service 1 5)).
            product_pk (rec_product r) = 1 \<and> reason r = ''item_similarity'') \<or>
         (\<exists>r\<in>set (fst (get_similar_products (\<lambda>ps. None) argsort twin_views init_service 2 5)).
            product_pk (rec_product r) = 2 \<and> reason r = ''item_similarity'')"
proof -
  from argsort_pair[OF assms, of 1 1] show ?thesis
  proof
    assume "argsort [1, 1] = [0, 1]"
    from twin_query_first[where argsort = argsort, OF this]
    have "(1, 1, ''item_similarity'') \<in>
        set (map (\<lambda>r. (product_pk (rec_product r), score r, reason r))
               (fst (get_similar_products (\<lambda>ps. None) argsort twin_views init_service 1 5)))"
      by simp
    then show ?thesis by auto
  next
    assume "argsort [1, 1] = [1, 0]"
    from twin_query_second[where argsort = argsort, OF this]
    have "(2, 1, ''item_similarity'') \<in>
        set (map (\<lambda>r. (product_pk (rec_product r), score r, reason r))
               (fst (get_similar_products (\<lambda>ps. None) argsort twin_views init_service 2 5)))"
      by simp
    then show ?thesis by auto
  qed
qed

theorem get_similar_products_returns_queried_product_witness:
  "is_argsort stable_argsort \<and>
   map (\<lambda>r. (product_pk (rec_product r), score r, reason r))
       (fst (get_similar_products (\<lambda>ps. None) stable_argsort twin_views init_service 1 5)) =
     [(1, 1, ''item_similarity'')] \<and>
   map (\<lambda>r. (product_pk (rec_product r), score r, reason r))
       (fst (get_similar_products (\<lambda>ps. None) stable_argsort twin_views init_service 2 5)) =
     [(1, 1, ''item_similarity'')]"
proof -
  have e: "stable_argsort [1, 1] = [0, 1]" by (simp add: stable_argsort_def)
  have q2: "map (\<lambda>r. (product_pk (rec_product r), score r, reason r))
       (fst (get_similar_products (\<lambda>ps. None) stable_argsort twin_views init_service 2 5)) =
     [(1, 1, ''item_similarity'')]"
    unfolding twin_query twin_trained
    by (simp add: item_similarity_recommendations_def row_of_def subscriptable_def e
          get_active_product_def twin_views_def product_row_def)
  from get_similar_products_returns_queried_product[OF is_argsort_stable] q2
  have "\<exists>r\<in>set (fst (get_similar_products (\<lambda>ps. None) stable_argsort twin_views init_service 1 5)).
            product_pk (rec_product r) = 1 \<and> reason r = ''item_similarity''"
    by auto
  with twin_query_first[where argsort = stable_argsort, OF e] q2 is_argsort_stable
  show ?thesis by blast
qed

end
